theory Spec2Isabelle
  imports Main
begin

section \<open>The page-level activities manager (src/activities.js)\<close>

text \<open>
  The class \<open>Activities\<close> is embedded together with the small part of the JavaScript
  run time its behaviour depends on: the microtask queue on which promise reactions
  run, the reactions waiting on the \<open>acceptResult()\<close> promise of each opened port, and
  a log of the callback invocations that took place.

  Modelling decisions.
  \<^item> Private members are written without the trailing underscore of the source:
    \<open>discoverResult\<close> is \<open>discoverResult_\<close>, \<open>resultBuffer\<close> is \<open>resultBuffer_\<close>.
  \<^item> The two registries \<open>requestHandlers\<close> and \<open>resultBuffer\<close> are plain objects
    (\<open>{}\<close>) indexed by the request id. Each is a map that holds its own properties,
    read through \<open>getProperty\<close>: a key that is not an own property but names a member
    of \<open>Object.prototype\<close> (\<open>constructor\<close>, \<open>toString\<close>, ...) yields that member, which
    is truthy and is neither an array nor a port.
  \<^item> A method that throws returns the exception (\<open>Inl\<close>); the page is then as it was
    before the call.
  \<^item> Objects created with \<open>new\<close> carry the number the allocator \<open>nextObj\<close> gave
    them, so that two ports built from the same arguments are different objects.
  \<^item> A callback is user code. It is identified by a number and either returns or
    throws; it does not call back into the manager while it runs.
  \<^item> A promise is represented by its eventual settlement.
  \<^item> The port and host classes and \<open>discoverRedirectPort\<close> live in files that are
    not part of the sources at hand. Their effects are parameters of the model
    (\<open>connect\<close>, \<open>discover\<close>) or events from outside (\<open>acceptResultResolves\<close>).
\<close>

subsection \<open>Values\<close>

type_synonym request_id = string

text \<open>A structured value (arguments, options, result data), kept opaque.\<close>

type_synonym js_object = string

text \<open>
  Exceptions: an \<open>Error\<close> thrown by user code, and the \<open>TypeError\<close> of calling
  something that is not a function.
\<close>

datatype error = Error string | TypeError string

text \<open>The eventual settlement of a promise; \<open>Pending\<close> is a promise that never settles.\<close>

datatype 'a promise = Pending | Fulfilled 'a | Rejected error

text \<open>What a call hands back: nothing (\<open>undefined\<close>) or a promise.\<close>

datatype 'a returned = Undefined | Promise "'a promise"

text \<open>
  \<open>p.then(f)\<close> with a fulfilment handler only, for a handler that returns a plain
  value: a rejection of \<open>p\<close> passes through unchanged.
\<close>

fun thenValue :: "('a \<Rightarrow> 'b) \<Rightarrow> 'a promise \<Rightarrow> 'b promise" where
  "thenValue f Pending = Pending"
| "thenValue f (Fulfilled v) = Fulfilled (f v)"
| "thenValue f (Rejected e) = Rejected e"

subsection \<open>Plain objects used as dictionaries\<close>

text \<open>
  The names every plain object inherits from \<open>Object.prototype\<close>. Each of them is bound
  to a function, \<open>__proto__\<close> to the prototype object itself: all are truthy.
\<close>

definition objectPrototypeMembers :: "string list" where
  "objectPrototypeMembers =
     [''constructor'', ''hasOwnProperty'', ''isPrototypeOf'', ''propertyIsEnumerable'',
      ''toLocaleString'', ''toString'', ''valueOf'', ''__defineGetter__'', ''__defineSetter__'',
      ''__lookupGetter__'', ''__lookupSetter__'', ''__proto__'']"

text \<open>
  What \<open>obj[key]\<close> finds: nothing (\<open>undefined\<close>), an own property, or the inherited
  member of that name. An own property hides the inherited member.
\<close>

datatype 'a property = NoProperty | OwnProperty 'a | InheritedMember

definition getProperty :: "(string \<rightharpoonup> 'a) \<Rightarrow> string \<Rightarrow> 'a property" where
  "getProperty obj key =
     (case obj key of
        Some v \<Rightarrow> OwnProperty v
      | None \<Rightarrow> if key \<in> set objectPrototypeMembers then InheritedMember else NoProperty)"

subsection \<open>Windows\<close>

record opener_window =
  closed :: bool

text \<open>
  The facts about \<open>win\<close> that the manager reads: the identity of the window object
  itself and of \<open>win.top\<close>, \<open>win.opener\<close> (\<open>None\<close> for \<open>null\<close>) and
  \<open>win.location.hash\<close>.
\<close>

record window =
  win_self :: nat
  win_top :: nat
  win_opener :: "opener_window option"
  location_hash :: string

subsection \<open>Ports, hosts, callbacks\<close>

text \<open>The record encoded in a redirect fragment.\<close>

record redirect_response =
  res_requestId :: request_id
  res_code :: string
  res_data :: js_object
  res_origin :: string

text \<open>
  Constructor arguments are kept as the fields of each port. The first field is the
  object identity, a window argument is kept as the identity of that window.
  \<open>ObjectPrototypeMember\<close> is not a port: it is the inherited member that
  \<open>resultBuffer_[requestId]\<close> yields for a request id of that name, and that the code
  then treats as a port.
\<close>

datatype port =
    ActivityIframePort nat nat string "js_object option"
  | ActivityWindowPort nat nat request_id string string "js_object option" "js_object option"
  | ActivityWindowRedirectPort nat redirect_response
  | ObjectPrototypeMember string

datatype host =
    ActivityIframeHost window
  | ActivityWindowPopupHost window
  | ActivityWindowRedirectHost window

datatype callback = Callback (cb_id: nat) (cb_throws: "error option")

subsection \<open>The manager and the page it runs in\<close>

record activities =
  win :: window
  fragment :: string
  requestHandlers :: "request_id \<rightharpoonup> callback list"
  resultBuffer :: "request_id \<rightharpoonup> port"

text \<open>
  The two closures the manager hands to \<open>then\<close>: the one of \<open>open\<close>, which calls
  \<open>consumeResultAll(requestId, port)\<close>, and the one of \<open>consumeResult\<close>, which calls
  \<open>callback(port)\<close>.
\<close>

datatype microtask =
    AcceptResultReaction request_id port
  | CallbackReaction port callback

record page =
  manager :: activities
  microtasks :: "microtask list"
  acceptReactions :: "(port \<times> microtask) list"
  opened :: "port list"
  connects :: "port list"
  calls :: "(callback \<times> port) list"
  rejections :: "error list"
  uncaught :: "error list"
  nextObj :: nat

definition new_Activities :: "window \<Rightarrow> activities" where
  "new_Activities w =
     \<lparr> win = w,
       fragment = location_hash w,
       requestHandlers = Map.empty,
       resultBuffer = Map.empty \<rparr>"

text \<open>A freshly loaded page whose script has just run \<open>new Activities(win)\<close>.\<close>

definition new_page :: "window \<Rightarrow> page" where
  "new_page w =
     \<lparr> manager = new_Activities w,
       microtasks = [],
       acceptReactions = [],
       opened = [],
       connects = [],
       calls = [],
       rejections = [],
       uncaught = [],
       nextObj = 0 \<rparr>"

subsection \<open>The methods of \<open>Activities\<close>\<close>

text \<open>
  \<open>openIframe\<close>: \<open>connect\<close> is the handshake of the new port, given by the settlement
  of the promise it returns. The call of \<open>port.connect()\<close> is logged in \<open>connects\<close>.
\<close>

definition openIframe ::
  "(port \<Rightarrow> 'c promise) \<Rightarrow> nat \<Rightarrow> string \<Rightarrow> js_object option \<Rightarrow> page \<Rightarrow> port promise \<times> page" where
  "openIframe connect iframe url opt_args s =
     (let port = ActivityIframePort (nextObj s) iframe url opt_args;
          s1 = s\<lparr>nextObj := Suc (nextObj s)\<rparr>;
          s2 = s1\<lparr>connects := connects s1 @ [port]\<rparr>
      in (thenValue (\<lambda>_. port) (connect port), s2))"

text \<open>
  \<open>consumeResult\<close>: \<open>Promise.resolve().then(() => callback(port))\<close> puts the reaction
  on the microtask queue; nothing is called yet.
\<close>

definition consumeResult :: "port \<Rightarrow> callback \<Rightarrow> page \<Rightarrow> page" where
  "consumeResult port callback s =
     s\<lparr>microtasks := microtasks s @ [CallbackReaction port callback]\<rparr>"

text \<open>
  \<open>consumeResultAll\<close>: when \<open>requestHandlers_[requestId]\<close> is an inherited member,
  \<open>handlers.forEach\<close> is not a function and the call throws before the buffer is
  written.
\<close>

definition consumeResultAll :: "request_id \<Rightarrow> port \<Rightarrow> page \<Rightarrow> error + page" where
  "consumeResultAll requestId port s =
     (case getProperty (requestHandlers (manager s)) requestId of
        InheritedMember \<Rightarrow> Inl (TypeError ''handlers.forEach is not a function'')
      | found \<Rightarrow>
          (let s1 = (case found of
                       OwnProperty handlers \<Rightarrow>
                         foldl (\<lambda>t handler. consumeResult port handler t) s handlers
                     | _ \<Rightarrow> s)
           in Inr (s1\<lparr>manager := (manager s1)
                    \<lparr>resultBuffer := (resultBuffer (manager s1))(requestId \<mapsto> port)\<rparr>\<rparr>)))"

text \<open>
  \<open>open\<close>: \<open>port.open()\<close> is logged in \<open>opened\<close>; the reaction registered on
  \<open>port.acceptResult()\<close> waits in \<open>acceptReactions\<close>. The method has no
  \<open>return\<close> statement.
\<close>

definition "open" ::
  "request_id \<Rightarrow> string \<Rightarrow> string \<Rightarrow> js_object option \<Rightarrow> js_object option \<Rightarrow> page
     \<Rightarrow> port returned \<times> page" where
  "open requestId url target opt_args opt_options s =
     (let port = ActivityWindowPort (nextObj s) (win_self (win (manager s)))
                   requestId url target opt_args opt_options;
          s1 = s\<lparr>nextObj := Suc (nextObj s)\<rparr>;
          s2 = s1\<lparr>opened := opened s1 @ [port]\<rparr>;
          s3 = s2\<lparr>acceptReactions :=
                    acceptReactions s2 @ [(port, AcceptResultReaction requestId port)]\<rparr>
      in (Undefined, s3))"

text \<open>
  \<open>discoverResult\<close>: \<open>discover\<close> stands for \<open>discoverRedirectPort\<close>. An empty
  fragment is falsy. An inherited member found in the buffer is truthy and is returned.
\<close>

definition discoverResult ::
  "(window \<Rightarrow> string \<Rightarrow> request_id \<Rightarrow> port option) \<Rightarrow> request_id \<Rightarrow> activities
     \<Rightarrow> port option \<times> activities" where
  "discoverResult discover requestId a =
     (case getProperty (resultBuffer a) requestId of
        OwnProperty port \<Rightarrow> (Some port, a)
      | InheritedMember \<Rightarrow> (Some (ObjectPrototypeMember requestId), a)
      | NoProperty \<Rightarrow>
          if fragment a \<noteq> [] then
            (case discover (win a) (fragment a) requestId of
               Some port \<Rightarrow> (Some port, a\<lparr>resultBuffer := (resultBuffer a)(requestId \<mapsto> port)\<rparr>)
             | None \<Rightarrow> (None, a))
          else (None, a))"

text \<open>
  \<open>onResult\<close>: when \<open>requestHandlers_[requestId]\<close> is an inherited member it is truthy,
  no array is created, \<open>handlers.push\<close> is not a function and the call throws.
\<close>

definition onResult ::
  "(window \<Rightarrow> string \<Rightarrow> request_id \<Rightarrow> port option) \<Rightarrow> request_id \<Rightarrow> callback \<Rightarrow> page
     \<Rightarrow> error + page" where
  "onResult discover requestId callback s =
     (let a = manager s in
      case getProperty (requestHandlers a) requestId of
        InheritedMember \<Rightarrow> Inl (TypeError ''handlers.push is not a function'')
      | found \<Rightarrow>
          (let handlers = (case found of OwnProperty hs \<Rightarrow> hs | _ \<Rightarrow> []);
               a1 = a\<lparr>requestHandlers :=
                       (requestHandlers a)(requestId \<mapsto> handlers @ [callback])\<rparr>;
               (availableResult, a2) = discoverResult discover requestId a1;
               s1 = s\<lparr>manager := a2\<rparr>
           in Inr (case availableResult of
                     None \<Rightarrow> s1
                   | Some port \<Rightarrow> consumeResult port callback s1)))"

text \<open>
  \<open>connectHost\<close>: \<open>connect\<close> is the method of the host classes; what it returns is
  returned unchanged.
\<close>

definition connectHost :: "(host \<Rightarrow> 'q \<Rightarrow> 'r) \<Rightarrow> 'q \<Rightarrow> activities \<Rightarrow> 'r" where
  "connectHost connect opt_request a =
     (let host =
        (if win_top (win a) \<noteq> win_self (win a) then ActivityIframeHost (win a)
         else if (case win_opener (win a) of None \<Rightarrow> False | Some opn \<Rightarrow> \<not> closed opn)
              then ActivityWindowPopupHost (win a)
         else ActivityWindowRedirectHost (win a))
      in connect host opt_request)"

subsection \<open>The microtask queue\<close>

text \<open>
  Calling a callback: the invocation is logged, and the callback returns or throws.
\<close>

definition callCallback :: "callback \<Rightarrow> port \<Rightarrow> page \<Rightarrow> error option \<times> page" where
  "callCallback callback port s =
     (cb_throws callback, s\<lparr>calls := calls s @ [(callback, port)]\<rparr>)"

fun runJob :: "microtask \<Rightarrow> page \<Rightarrow> error option \<times> page" where
  "runJob (AcceptResultReaction requestId port) s =
     (case consumeResultAll requestId port s of
        Inl e \<Rightarrow> (Some e, s)
      | Inr s1 \<Rightarrow> (None, s1))"
| "runJob (CallbackReaction port callback) s = callCallback callback port s"

text \<open>
  One microtask: the job at the head of the queue runs. An exception it throws
  rejects the promise that \<open>then\<close> returned, which nobody holds; it goes no further.
\<close>

definition runMicrotask :: "page \<Rightarrow> page" where
  "runMicrotask s =
     (case microtasks s of
        [] \<Rightarrow> s
      | job # rest \<Rightarrow>
          (case runJob job (s\<lparr>microtasks := rest\<rparr>) of
             (None, s1) \<Rightarrow> s1
           | (Some e, s1) \<Rightarrow> s1\<lparr>rejections := rejections s1 @ [e]\<rparr>))"

text \<open>The \<open>acceptResult()\<close> promise of a port is fulfilled: its reactions are queued.\<close>

definition acceptResultResolves :: "port \<Rightarrow> page \<Rightarrow> page" where
  "acceptResultResolves port s =
     s\<lparr>microtasks := microtasks s @ map snd (filter (\<lambda>r. fst r = port) (acceptReactions s)),
       acceptReactions := filter (\<lambda>r. fst r \<noteq> port) (acceptReactions s)\<rparr>"

text \<open>
  The queue is emptied job by job. The weight below bounds the jobs still to run: a
  reaction of \<open>open\<close> queues one job per registered handler.
\<close>

fun jobWeight :: "(request_id \<rightharpoonup> callback list) \<Rightarrow> microtask \<Rightarrow> nat" where
  "jobWeight hm (AcceptResultReaction requestId port) =
     2 + (case hm requestId of None \<Rightarrow> 0 | Some hs \<Rightarrow> length hs)"
| "jobWeight hm (CallbackReaction port callback) = 1"

definition queueWeight :: "page \<Rightarrow> nat" where
  "queueWeight s = sum_list (map (jobWeight (requestHandlers (manager s))) (microtasks s))"

function drain :: "page \<Rightarrow> page" where
  "drain s = (if microtasks s = [] then s else drain (runMicrotask s))"
  by pat_completeness auto
termination
proof (relation "measure queueWeight")
  show "wf (measure queueWeight)" by simp
next
  fix s :: page
  assume ne: "microtasks s \<noteq> []"
  have fold_q: "microtasks (foldl (\<lambda>t h. consumeResult p h t) t0 hs)
                  = microtasks t0 @ map (CallbackReaction p) hs
                \<and> manager (foldl (\<lambda>t h. consumeResult p h t) t0 hs) = manager t0"
    for p t0 hs
    by (induction hs rule: rev_induct) (simp_all add: consumeResult_def)
  obtain job rest where q: "microtasks s = job # rest"
    using ne by (cases "microtasks s") auto
  have "queueWeight (runMicrotask s) < queueWeight s"
  proof (cases job)
    case (AcceptResultReaction rid p)
    show ?thesis
      using q AcceptResultReaction
      by (cases "requestHandlers (manager s) rid")
         (simp_all add: runMicrotask_def queueWeight_def consumeResultAll_def getProperty_def
            fold_q comp_def sum_list_triv)
  next
    case (CallbackReaction p c)
    show ?thesis
      using q CallbackReaction
      by (cases "cb_throws c")
         (simp_all add: runMicrotask_def queueWeight_def callCallback_def)
  qed
  then show "(runMicrotask s, s) \<in> measure queueWeight" by simp
qed

declare drain.simps [simp del]

subsection \<open>What happens on a page\<close>

text \<open>
  The script calls \<open>onResult\<close> or \<open>open\<close>, the \<open>acceptResult()\<close> promise of a port
  is fulfilled, one microtask runs, or \<open>win.location.hash\<close> is assigned. An exception
  that \<open>onResult\<close> throws at the script is logged in \<open>uncaught\<close>.
\<close>

datatype event =
    CallOnResult request_id callback
  | CallOpen request_id string string "js_object option" "js_object option"
  | ResultAccepted port
  | Microtask
  | AssignHash string

fun step :: "(window \<Rightarrow> string \<Rightarrow> request_id \<Rightarrow> port option) \<Rightarrow> event \<Rightarrow> page \<Rightarrow> page" where
  "step discover (CallOnResult requestId callback) s =
     (case onResult discover requestId callback s of
        Inl e \<Rightarrow> s\<lparr>uncaught := uncaught s @ [e]\<rparr>
      | Inr s1 \<Rightarrow> s1)"
| "step discover (CallOpen requestId url target opt_args opt_options) s =
     snd (open requestId url target opt_args opt_options s)"
| "step discover (ResultAccepted port) s = acceptResultResolves port s"
| "step discover Microtask s = runMicrotask s"
| "step discover (AssignHash h) s =
     s\<lparr>manager := (manager s)\<lparr>win := (win (manager s))\<lparr>location_hash := h\<rparr>\<rparr>\<rparr>"

definition exec ::
  "(window \<Rightarrow> string \<Rightarrow> request_id \<Rightarrow> port option) \<Rightarrow> event list \<Rightarrow> page \<Rightarrow> page" where
  "exec discover evs s = foldl (\<lambda>t e. step discover e t) s evs"

subsection \<open>The redirect result in the fragment\<close>

text \<open>
  Modelled from the spec: \<open>discoverRedirectPort\<close> of activity-window-port.js, which is
  not among the sources. The spec has it parse the result record that the fragment
  carries under the reserved key, compare the record's request id with the one asked
  for and, only when they are equal, build the port for it; an absent or malformed
  record gives no port. \<open>decode\<close> is the percent-decoding and parsing of the fragment,
  \<open>None\<close> when there is no well-formed record.
\<close>

definition discoverRedirectPort ::
  "(string \<Rightarrow> redirect_response option) \<Rightarrow> window \<Rightarrow> string \<Rightarrow> request_id \<Rightarrow> port option" where
  "discoverRedirectPort decode w fragmentText requestId =
     (case decode fragmentText of
        None \<Rightarrow> None
      | Some response \<Rightarrow>
          if res_requestId response = requestId
          then Some (ActivityWindowRedirectPort (win_self w) response)
          else None)"

subsection \<open>Notions used in the statements\<close>

text \<open>The callbacks registered for a request id, in registration order.\<close>

definition handlersFor :: "activities \<Rightarrow> request_id \<Rightarrow> callback list" where
  "handlersFor a requestId =
     (case requestHandlers a requestId of None \<Rightarrow> [] | Some hs \<Rightarrow> hs)"

text \<open>The callbacks that a list of events registers for a request id, in order.\<close>

fun registered :: "request_id \<Rightarrow> event \<Rightarrow> callback list" where
  "registered requestId (CallOnResult r callback) = (if r = requestId then [callback] else [])"
| "registered requestId (CallOpen r url target opt_args opt_options) = []"
| "registered requestId (ResultAccepted port) = []"
| "registered requestId Microtask = []"
| "registered requestId (AssignHash h) = []"

definition registrations :: "request_id \<Rightarrow> event list \<Rightarrow> callback list" where
  "registrations requestId evs = concat (map (registered requestId) evs)"

text \<open>An event that registers a callback for the request id, or runs a microtask.\<close>

fun registersOrRuns :: "request_id \<Rightarrow> event \<Rightarrow> bool" where
  "registersOrRuns requestId (CallOnResult r callback) = (r = requestId)"
| "registersOrRuns requestId Microtask = True"
| "registersOrRuns requestId (CallOpen r url target opt_args opt_options) = False"
| "registersOrRuns requestId (ResultAccepted port) = False"
| "registersOrRuns requestId (AssignHash h) = False"

fun registers :: "request_id \<Rightarrow> event \<Rightarrow> bool" where
  "registers requestId (CallOnResult r callback) = (r = requestId)"
| "registers requestId Microtask = False"
| "registers requestId (CallOpen r url target opt_args opt_options) = False"
| "registers requestId (ResultAccepted port) = False"
| "registers requestId (AssignHash h) = False"

text \<open>The invocation a queued callback job stands for.\<close>

fun isCallbackJob :: "microtask \<Rightarrow> bool" where
  "isCallbackJob (CallbackReaction port callback) = True"
| "isCallbackJob (AcceptResultReaction requestId port) = False"

fun invocations :: "microtask list \<Rightarrow> (callback \<times> port) list" where
  "invocations [] = []"
| "invocations (CallbackReaction port callback # jobs) = (callback, port) # invocations jobs"
| "invocations (AcceptResultReaction requestId port # jobs) = invocations jobs"

text \<open>The exceptions thrown in a sequence of invocations.\<close>

definition failures :: "(callback \<times> port) list \<Rightarrow> error list" where
  "failures cs = List.map_filter (\<lambda>cp. cb_throws (fst cp)) cs"

text \<open>
  What the reactions of \<open>open\<close> that wait in a queue will deliver once they run: the
  port of each, to every callback registered for its request id.
\<close>

fun deliveries :: "(request_id \<rightharpoonup> callback list) \<Rightarrow> microtask list \<Rightarrow> (callback \<times> port) list" where
  "deliveries hm [] = []"
| "deliveries hm (AcceptResultReaction requestId port # jobs) =
     map (\<lambda>c. (c, port)) (case hm requestId of None \<Rightarrow> [] | Some hs \<Rightarrow> hs) @ deliveries hm jobs"
| "deliveries hm (CallbackReaction port callback # jobs) = deliveries hm jobs"

text \<open>
  A job that stores a result for the request id when it runs, an event that opens an
  activity for it, and a page on which no result for it is on its way.
\<close>

fun awaitsResult :: "request_id \<Rightarrow> microtask \<Rightarrow> bool" where
  "awaitsResult requestId (AcceptResultReaction r port) = (r = requestId)"
| "awaitsResult requestId (CallbackReaction port callback) = False"

fun opens :: "request_id \<Rightarrow> event \<Rightarrow> bool" where
  "opens requestId (CallOpen r url target opt_args opt_options) = (r = requestId)"
| "opens requestId (CallOnResult r callback) = False"
| "opens requestId (ResultAccepted port) = False"
| "opens requestId Microtask = False"
| "opens requestId (AssignHash h) = False"

definition settled :: "request_id \<Rightarrow> page \<Rightarrow> bool" where
  "settled requestId s \<longleftrightarrow>
     (\<forall>job\<in>set (microtasks s). \<not> awaitsResult requestId job)
     \<and> (\<forall>r\<in>set (acceptReactions s). \<not> awaitsResult requestId (snd r))"

text \<open>
  Assignments to \<open>win.location.hash\<close>: the events that make them, a run without them,
  and a page with the current hash left out of account.
\<close>

fun assignsHash :: "event \<Rightarrow> bool" where
  "assignsHash (AssignHash h) = True"
| "assignsHash (CallOnResult r callback) = False"
| "assignsHash (CallOpen r url target opt_args opt_options) = False"
| "assignsHash (ResultAccepted port) = False"
| "assignsHash Microtask = False"

definition withoutHashAssignments :: "event list \<Rightarrow> event list" where
  "withoutHashAssignments evs = filter (\<lambda>e. \<not> assignsHash e) evs"

definition forgetHash :: "page \<Rightarrow> page" where
  "forgetHash s = s\<lparr>manager := (manager s)\<lparr>win := (win (manager s))\<lparr>location_hash := []\<rparr>\<rparr>\<rparr>"

text \<open>
  Ports built from a redirect fragment, and the pages on which such a port has only gone
  where the callbacks registered for request id \<open>X\<close> are: it is buffered under \<open>X\<close>
  only, queued for and delivered to those callbacks only.
\<close>

fun isRedirectPort :: "port \<Rightarrow> bool" where
  "isRedirectPort (ActivityWindowRedirectPort w response) = True"
| "isRedirectPort (ActivityWindowPort obj w requestId url target opt_args opt_options) = False"
| "isRedirectPort (ActivityIframePort obj iframe url opt_args) = False"
| "isRedirectPort (ObjectPrototypeMember name) = False"

fun jobKeeps :: "callback list \<Rightarrow> microtask \<Rightarrow> bool" where
  "jobKeeps hs (CallbackReaction port callback) = (isRedirectPort port \<longrightarrow> callback \<in> set hs)"
| "jobKeeps hs (AcceptResultReaction requestId port) = (\<not> isRedirectPort port)"

definition redirectConfined :: "request_id \<Rightarrow> page \<Rightarrow> bool" where
  "redirectConfined X s \<longleftrightarrow>
     (\<forall>rid p. resultBuffer (manager s) rid = Some p \<longrightarrow> isRedirectPort p \<longrightarrow> rid = X)
     \<and> (\<forall>job\<in>set (microtasks s). jobKeeps (handlersFor (manager s) X) job)
     \<and> (\<forall>r\<in>set (acceptReactions s). jobKeeps [] (snd r))
     \<and> (\<forall>cp\<in>set (calls s). isRedirectPort (snd cp) \<longrightarrow> fst cp \<in> set (handlersFor (manager s) X))"

text \<open>
  A request id under which \<open>onResult\<close> can register: the lookup in the handler
  registry does not end at an inherited member.
\<close>

definition registrable :: "activities \<Rightarrow> request_id \<Rightarrow> bool" where
  "registrable a requestId \<longleftrightarrow> getProperty (requestHandlers a) requestId \<noteq> InheritedMember"

text \<open>
  The registries hold no own property named like a member of \<open>Object.prototype\<close>.
\<close>

definition plainRegistries :: "activities \<Rightarrow> bool" where
  "plainRegistries a \<longleftrightarrow>
     (\<forall>key\<in>set objectPrototypeMembers.
        requestHandlers a key = None \<and> resultBuffer a key = None)"

text \<open>
  An event that is the arrival of a result for the request id: the microtask that runs
  is the reaction of an \<open>open\<close> for it. A run in which no such result arrives.
\<close>

fun arrives :: "request_id \<Rightarrow> event \<Rightarrow> page \<Rightarrow> bool" where
  "arrives requestId Microtask s =
     (case microtasks s of
        AcceptResultReaction r port # rest \<Rightarrow> r = requestId
      | _ \<Rightarrow> False)"
| "arrives requestId (CallOnResult r callback) s = False"
| "arrives requestId (CallOpen r url target opt_args opt_options) s = False"
| "arrives requestId (ResultAccepted port) s = False"
| "arrives requestId (AssignHash h) s = False"

fun noArrival ::
  "(window \<Rightarrow> string \<Rightarrow> request_id \<Rightarrow> port option) \<Rightarrow> request_id \<Rightarrow> event list \<Rightarrow> page \<Rightarrow> bool" where
  "noArrival discover requestId [] s = True"
| "noArrival discover requestId (e # evs) s =
     (\<not> arrives requestId e s \<and> noArrival discover requestId evs (step discover e s))"



section \<open>Basic facts\<close>

subsection \<open>The effect of each operation\<close>

lemma foldl_consumeResult:
  "foldl (\<lambda>t h. consumeResult p h t) s hs = s\<lparr>microtasks := microtasks s @ map (CallbackReaction p) hs\<rparr>"
  by (induction hs rule: rev_induct) (simp_all add: consumeResult_def)

lemma registrable_iff:
  "registrable a rid \<longleftrightarrow> requestHandlers a rid \<noteq> None \<or> rid \<notin> set objectPrototypeMembers"
  by (simp add: registrable_def getProperty_def split: option.splits)

lemma consumeResultAll_eq:
  "registrable (manager s) rid \<Longrightarrow>
   consumeResultAll rid p s =
     Inr (s\<lparr>microtasks := microtasks s @ map (CallbackReaction p) (handlersFor (manager s) rid),
           manager := (manager s)\<lparr>resultBuffer := (resultBuffer (manager s))(rid \<mapsto> p)\<rparr>\<rparr>)"
  by (auto simp add: consumeResultAll_def registrable_def getProperty_def handlersFor_def
        foldl_consumeResult split: option.splits)

lemma consumeResultAll_throws:
  "\<not> registrable (manager s) rid \<Longrightarrow>
   consumeResultAll rid p s = Inl (TypeError ''handlers.forEach is not a function'')"
  by (auto simp add: consumeResultAll_def registrable_def)

lemma runMicrotask_Nil: "microtasks s = [] \<Longrightarrow> runMicrotask s = s"
  by (simp add: runMicrotask_def)

lemma runMicrotask_callback:
  "microtasks s = CallbackReaction p c # rest \<Longrightarrow>
   runMicrotask s =
     s\<lparr>microtasks := rest, calls := calls s @ [(c, p)],
       rejections := rejections s @ failures [(c, p)]\<rparr>"
  by (simp add: runMicrotask_def callCallback_def failures_def split: option.splits)

lemma runMicrotask_reaction:
  "microtasks s = AcceptResultReaction rid p # rest \<Longrightarrow> registrable (manager s) rid \<Longrightarrow>
   runMicrotask s =
     s\<lparr>microtasks := rest @ map (CallbackReaction p) (handlersFor (manager s) rid),
       manager := (manager s)\<lparr>resultBuffer := (resultBuffer (manager s))(rid \<mapsto> p)\<rparr>\<rparr>"
  by (simp add: runMicrotask_def consumeResultAll_eq)

lemma runMicrotask_reaction_throws:
  "microtasks s = AcceptResultReaction rid p # rest \<Longrightarrow> \<not> registrable (manager s) rid \<Longrightarrow>
   runMicrotask s =
     s\<lparr>microtasks := rest,
       rejections := rejections s @ [TypeError ''handlers.forEach is not a function'']\<rparr>"
  by (simp add: runMicrotask_def consumeResultAll_throws)

lemma handlersFor_unregistrable: "\<not> registrable a rid \<Longrightarrow> handlersFor a rid = []"
  by (simp add: registrable_iff handlersFor_def)

lemma invocations_append: "invocations (xs @ ys) = invocations xs @ invocations ys"
  by (induction xs rule: invocations.induct) simp_all

lemma invocations_map: "invocations (map (CallbackReaction p) hs) = map (\<lambda>c. (c, p)) hs"
  by (induction hs) simp_all

lemma deliveries_append: "deliveries hm (xs @ ys) = deliveries hm xs @ deliveries hm ys"
  by (induction hm xs rule: deliveries.induct) simp_all

lemma deliveries_map: "deliveries hm (map (CallbackReaction p) hs) = []"
  by (induction hs) simp_all

lemma deliveries_callbacks: "list_all isCallbackJob q \<Longrightarrow> deliveries hm q = []"
  by (induction hm q rule: deliveries.induct) simp_all

lemma callbacks_map: "list_all isCallbackJob (map (CallbackReaction p) hs)"
  by (induction hs) simp_all

lemma failures_append: "failures (xs @ ys) = failures xs @ failures ys"
  by (simp add: failures_def List.map_filter_def)

lemma failures_Cons: "failures (x # xs) = failures [x] @ failures xs"
  using failures_append[of "[x]" xs] by simp

lemma failures_member:
  "(c, p) \<in> set cs \<Longrightarrow> cb_throws c = Some e \<Longrightarrow> e \<in> set (failures cs)"
  by (force simp add: failures_def List.map_filter_def)

lemma drain_Nil: "microtasks s = [] \<Longrightarrow> drain s = s"
  by (subst drain.simps) simp

lemma drain_step: "microtasks s \<noteq> [] \<Longrightarrow> drain s = drain (runMicrotask s)"
  by (subst drain.simps) simp

lemma drain_microtasks: "microtasks (drain s) = []"
  by (induction s rule: drain.induct) (metis drain.simps)

lemma drain_calls:
  "calls (drain s) =
     calls s @ invocations (microtasks s) @ deliveries (requestHandlers (manager s)) (microtasks s)"
proof (induction s rule: drain.induct)
  case (1 s)
  show ?case
  proof (cases "microtasks s")
    case Nil
    then show ?thesis by (simp add: drain_Nil)
  next
    case (Cons job rest)
    then have d: "drain s = drain (runMicrotask s)" by (simp add: drain_step)
    have ih: "calls (drain (runMicrotask s)) =
       calls (runMicrotask s) @ invocations (microtasks (runMicrotask s)) @
       deliveries (requestHandlers (manager (runMicrotask s))) (microtasks (runMicrotask s))"
      using "1.IH" Cons by simp
    show ?thesis
    proof (cases job)
      case (AcceptResultReaction rid p)
      show ?thesis
      proof (cases "registrable (manager s) rid")
        case True
        then show ?thesis
          using Cons d ih AcceptResultReaction
          by (simp add: runMicrotask_reaction invocations_append
                invocations_map deliveries_append deliveries_map handlersFor_def)
      next
        case False
        then show ?thesis
          using Cons d ih AcceptResultReaction handlersFor_unregistrable[OF False]
          by (simp add: runMicrotask_reaction_throws handlersFor_def)
      qed
    next
      case (CallbackReaction p c)
      then show ?thesis
        using Cons d ih by (simp add: runMicrotask_callback)
    qed
  qed
qed

lemma drain_callbacks:
  assumes "list_all isCallbackJob (microtasks s)"
  shows "calls (drain s) = calls s @ invocations (microtasks s)"
    and "rejections (drain s) = rejections s @ failures (invocations (microtasks s))"
    and "manager (drain s) = manager s"
proof -
  show "calls (drain s) = calls s @ invocations (microtasks s)"
    using assms by (simp add: drain_calls deliveries_callbacks)
  have "rejections (drain s) = rejections s @ failures (invocations (microtasks s))
        \<and> manager (drain s) = manager s"
    using assms
  proof (induction s rule: drain.induct)
    case (1 s)
    show ?case
    proof (cases "microtasks s")
      case Nil
      then show ?thesis by (simp add: drain_Nil failures_def)
    next
      case (Cons job rest)
      with "1.prems" obtain p c where job: "job = CallbackReaction p c"
        by (cases job) auto
      have d: "drain s = drain (runMicrotask s)" using Cons by (simp add: drain_step)
      have r: "runMicrotask s = s\<lparr>microtasks := rest, calls := calls s @ [(c, p)],
                 rejections := rejections s @ failures [(c, p)]\<rparr>"
        using Cons job by (simp add: runMicrotask_callback)
      have "rejections (drain (runMicrotask s))
              = rejections (runMicrotask s) @ failures (invocations (microtasks (runMicrotask s)))
            \<and> manager (drain (runMicrotask s)) = manager (runMicrotask s)"
        using "1.prems" Cons by (intro "1.IH") (simp_all add: r)
      then show ?thesis
        using Cons job d
        by (simp add: r failures_Cons[of "(c, p)" "invocations rest"])
    qed
  qed
  then show "rejections (drain s) = rejections s @ failures (invocations (microtasks s))"
    and "manager (drain s) = manager s"
    by simp_all
qed

lemma discoverResult_handlers:
  "discoverResult d rid (a\<lparr>requestHandlers := hm\<rparr>) =
     (fst (discoverResult d rid a), (snd (discoverResult d rid a))\<lparr>requestHandlers := hm\<rparr>)"
  by (simp add: discoverResult_def getProperty_def split: option.splits)

lemma discoverResult_frame:
  "requestHandlers (snd (discoverResult d rid a)) = requestHandlers a
   \<and> win (snd (discoverResult d rid a)) = win a
   \<and> fragment (snd (discoverResult d rid a)) = fragment a"
  by (simp add: discoverResult_def getProperty_def split: option.splits)

lemma discoverResult_buffer:
  "resultBuffer (snd (discoverResult d rid a)) = resultBuffer a
   \<or> (\<exists>p. resultBuffer a rid = None \<and> rid \<notin> set objectPrototypeMembers
          \<and> resultBuffer (snd (discoverResult d rid a)) = (resultBuffer a)(rid \<mapsto> p))"
  by (auto simp add: discoverResult_def getProperty_def split: option.splits)

lemma onResult_eq:
  "registrable (manager s) rid \<Longrightarrow>
   onResult d rid c s =
     Inr (s\<lparr>manager := (snd (discoverResult d rid (manager s)))\<lparr>requestHandlers :=
            (requestHandlers (manager s))(rid \<mapsto> handlersFor (manager s) rid @ [c])\<rparr>,
          microtasks := microtasks s @
            (case fst (discoverResult d rid (manager s)) of
               None \<Rightarrow> [] | Some p \<Rightarrow> [CallbackReaction p c])\<rparr>)"
  by (auto simp add: onResult_def registrable_def getProperty_def discoverResult_handlers
        consumeResult_def handlersFor_def Let_def split: option.splits)

lemma onResult_throws:
  "\<not> registrable (manager s) rid \<Longrightarrow>
   onResult d rid c s = Inl (TypeError ''handlers.push is not a function'')"
  by (auto simp add: onResult_def registrable_def Let_def)

lemma open_eq:
  "open rid url target args opts s =
     (Undefined,
      s\<lparr>nextObj := Suc (nextObj s),
        opened := opened s
          @ [ActivityWindowPort (nextObj s) (win_self (win (manager s))) rid url target args opts],
        acceptReactions := acceptReactions s
          @ [(ActivityWindowPort (nextObj s) (win_self (win (manager s))) rid url target args opts,
              AcceptResultReaction rid
                (ActivityWindowPort (nextObj s) (win_self (win (manager s))) rid url target
                   args opts))]\<rparr>)"
  by (simp add: open_def Let_def)

lemma exec_Nil: "exec d [] s = s"
  by (simp add: exec_def)

lemma exec_Cons: "exec d (e # evs) s = exec d evs (step d e s)"
  by (simp add: exec_def)

lemma exec_append: "exec d (xs @ ys) s = exec d ys (exec d xs s)"
  by (simp add: exec_def)

lemma filter_fresh:
  "\<forall>r\<in>set rs. fst r \<noteq> p \<Longrightarrow> filter (\<lambda>r. fst r = p) rs = [] \<and> filter (\<lambda>r. fst r \<noteq> p) rs = rs"
  by (induction rs) auto

text \<open>The equations that evaluate a run on a concrete page.\<close>

lemmas run_simps =
  exec_def new_page_def new_Activities_def handlersFor_def onResult_def consumeResultAll_def
  getProperty_def objectPrototypeMembers_def discoverResult_def consumeResult_def
  open_eq acceptResultResolves_def runMicrotask_def callCallback_def Let_def

subsection \<open>The registries hold no inherited name\<close>

text \<open>
  No method stores under a name that its lookup found inherited: \<open>onResult\<close> and
  \<open>consumeResultAll_\<close> throw before their assignment, and \<open>discoverResult_\<close> assigns only
  when the lookup found nothing. On a page started by the constructor such a name
  therefore never becomes an own property of a registry.
\<close>

lemma plain_registrable:
  "plainRegistries a \<Longrightarrow> registrable a rid \<longleftrightarrow> rid \<notin> set objectPrototypeMembers"
  by (auto simp add: plainRegistries_def registrable_iff)

lemma plain_step:
  assumes "plainRegistries (manager s)"
  shows "plainRegistries (manager (step d e s))"
proof (cases e)
  case (CallOnResult r c)
  show ?thesis
  proof (cases "registrable (manager s) r")
    case True
    then have r: "r \<notin> set objectPrototypeMembers"
      using assms by (simp add: plain_registrable)
    show ?thesis
      using discoverResult_buffer[of d r "manager s"] assms r CallOnResult True
      by (auto simp add: onResult_eq plainRegistries_def)
  next
    case False
    then show ?thesis using assms CallOnResult by (simp add: onResult_throws)
  qed
next
  case (CallOpen r u t a ob)
  then show ?thesis using assms by (simp add: open_eq)
next
  case (ResultAccepted q)
  then show ?thesis using assms by (simp add: acceptResultResolves_def)
next
  case Microtask
  show ?thesis
  proof (cases "microtasks s")
    case Nil
    then show ?thesis using Microtask assms by (simp add: runMicrotask_Nil)
  next
    case (Cons job rest)
    show ?thesis
    proof (cases job)
      case (AcceptResultReaction r p)
      show ?thesis
      proof (cases "registrable (manager s) r")
        case True
        then have "r \<notin> set objectPrototypeMembers"
          using assms by (simp add: plain_registrable)
        then show ?thesis
          using Microtask Cons AcceptResultReaction True assms
          by (auto simp add: runMicrotask_reaction plainRegistries_def)
      next
        case False
        then show ?thesis
          using Microtask Cons AcceptResultReaction assms
          by (simp add: runMicrotask_reaction_throws)
      qed
    next
      case (CallbackReaction p c)
      then show ?thesis
        using Microtask Cons assms by (simp add: runMicrotask_callback)
    qed
  qed
next
  case (AssignHash h)
  then show ?thesis using assms by (simp add: plainRegistries_def)
qed

lemma plain_exec:
  "plainRegistries (manager s) \<Longrightarrow> plainRegistries (manager (exec d evs s))"
  by (induction evs arbitrary: s) (simp_all add: exec_Nil exec_Cons plain_step)

lemma plain_new_page: "plainRegistries (manager (new_page w))"
  by (simp add: plainRegistries_def new_page_def new_Activities_def)

lemma ordinary_registrable: "rid \<notin> set objectPrototypeMembers \<Longrightarrow> registrable a rid"
  by (simp add: registrable_iff)

subsection \<open>The result buffer\<close>

lemma discoverResult_keeps:
  "resultBuffer a rid = Some p \<Longrightarrow> resultBuffer (snd (discoverResult d rid' a)) rid = Some p"
  by (auto simp add: discoverResult_def getProperty_def split: option.splits)

lemma discoverResult_cases:
  "discoverResult d rid a = (Some p, a') \<Longrightarrow>
     (resultBuffer a rid = Some p \<and> a' = a)
     \<or> (p = ObjectPrototypeMember rid \<and> a' = a)
     \<or> (resultBuffer a rid = None \<and> d (win a) (fragment a) rid = Some p
        \<and> a' = a\<lparr>resultBuffer := (resultBuffer a)(rid \<mapsto> p)\<rparr>)"
  by (auto simp add: discoverResult_def getProperty_def split: option.splits if_splits)

lemma discoverResult_None:
  "discoverResult d rid a = (None, a') \<Longrightarrow> a' = a"
  by (auto simp add: discoverResult_def getProperty_def split: option.splits if_splits)

lemma buffer_step_kept:
  assumes "resultBuffer (manager s) rid = Some p" and "\<not> arrives rid e s"
  shows "resultBuffer (manager (step d e s)) rid = Some p"
proof (cases e)
  case (CallOnResult r c)
  show ?thesis
  proof (cases "registrable (manager s) r")
    case True
    then show ?thesis
      using CallOnResult assms(1) discoverResult_keeps[OF assms(1), of d r]
      by (simp add: onResult_eq)
  next
    case False
    then show ?thesis using CallOnResult assms(1) by (simp add: onResult_throws)
  qed
next
  case (CallOpen r u t a ob)
  then show ?thesis using assms by (simp add: open_eq)
next
  case (ResultAccepted q)
  then show ?thesis using assms by (simp add: acceptResultResolves_def)
next
  case Microtask
  show ?thesis
  proof (cases "microtasks s")
    case Nil
    then show ?thesis using Microtask assms by (simp add: runMicrotask_Nil)
  next
    case (Cons job rest)
    show ?thesis
    proof (cases job)
      case (AcceptResultReaction r q)
      with assms(2) Microtask Cons have "r \<noteq> rid" by simp
      then show ?thesis
        using Microtask Cons AcceptResultReaction assms(1)
        by (cases "registrable (manager s) r")
           (simp_all add: runMicrotask_reaction runMicrotask_reaction_throws)
    next
      case (CallbackReaction q c)
      then show ?thesis
        using Microtask Cons assms(1) by (simp add: runMicrotask_callback)
    qed
  qed
next
  case (AssignHash h)
  then show ?thesis using assms by simp
qed

lemma buffer_exec_kept:
  assumes "resultBuffer (manager s) rid = Some p" and "noArrival d rid evs s"
  shows "resultBuffer (manager (exec d evs s)) rid = Some p"
  using assms
proof (induction evs arbitrary: s)
  case Nil
  then show ?case by (simp add: exec_Nil)
next
  case (Cons e evs)
  have "resultBuffer (manager (step d e s)) rid = Some p"
    using Cons.prems by (intro buffer_step_kept) simp_all
  then show ?case
    using Cons.prems by (simp add: exec_Cons Cons.IH)
qed

lemma buffer_step_dom:
  assumes "resultBuffer (manager s) rid \<noteq> None"
  shows "resultBuffer (manager (step d e s)) rid \<noteq> None"
proof (cases e)
  case (CallOnResult r c)
  show ?thesis
  proof (cases "registrable (manager s) r")
    case True
    then show ?thesis
      using CallOnResult assms discoverResult_buffer[of d r "manager s"]
      by (auto simp add: onResult_eq)
  next
    case False
    then show ?thesis using CallOnResult assms by (simp add: onResult_throws)
  qed
next
  case (CallOpen r u t a ob)
  then show ?thesis using assms by (simp add: open_eq)
next
  case (ResultAccepted q)
  then show ?thesis using assms by (simp add: acceptResultResolves_def)
next
  case Microtask
  show ?thesis
  proof (cases "microtasks s")
    case Nil
    then show ?thesis using Microtask assms by (simp add: runMicrotask_Nil)
  next
    case (Cons job rest)
    show ?thesis
    proof (cases job)
      case (AcceptResultReaction r q)
      then show ?thesis
        using Microtask Cons assms
        by (cases "registrable (manager s) r")
           (auto simp add: runMicrotask_reaction runMicrotask_reaction_throws)
    next
      case (CallbackReaction q c)
      then show ?thesis
        using Microtask Cons assms by (simp add: runMicrotask_callback)
    qed
  qed
next
  case (AssignHash h)
  then show ?thesis using assms by simp
qed

lemma buffer_exec_dom:
  "resultBuffer (manager s) rid \<noteq> None \<Longrightarrow> resultBuffer (manager (exec d evs s)) rid \<noteq> None"
proof (induction evs arbitrary: s)
  case Nil
  then show ?case by (simp add: exec_Nil)
next
  case (Cons e evs)
  from Cons.prems have "resultBuffer (manager (step d e s)) rid \<noteq> None"
    by (rule buffer_step_dom)
  then show ?case
    unfolding exec_Cons by (rule Cons.IH)
qed

lemma buffer_step_empty:
  assumes "resultBuffer (manager s) X = None" and "settled X s"
    and "\<not> registers X e" and "\<not> opens X e"
  shows "resultBuffer (manager (step d e s)) X = None \<and> settled X (step d e s)"
proof (cases e)
  case (CallOnResult r c)
  with assms(3) have "r \<noteq> X" by simp
  then show ?thesis
    using CallOnResult assms(1,2) discoverResult_buffer[of d r "manager s"]
    by (cases "registrable (manager s) r")
       (auto simp add: onResult_eq onResult_throws settled_def split: option.splits)
next
  case (CallOpen r u t a ob)
  then show ?thesis
    using assms by (auto simp add: open_eq settled_def)
next
  case (ResultAccepted q)
  then show ?thesis
    using assms by (auto simp add: acceptResultResolves_def settled_def)
next
  case Microtask
  show ?thesis
  proof (cases "microtasks s")
    case Nil
    then show ?thesis using Microtask assms by (simp add: runMicrotask_Nil)
  next
    case (Cons job rest)
    show ?thesis
    proof (cases job)
      case (AcceptResultReaction r p)
      then show ?thesis
        using Microtask Cons assms
        by (cases "registrable (manager s) r")
           (auto simp add: runMicrotask_reaction runMicrotask_reaction_throws settled_def)
    next
      case (CallbackReaction p c)
      then show ?thesis
        using Microtask Cons assms by (auto simp add: runMicrotask_callback settled_def)
    qed
  qed
next
  case (AssignHash h)
  then show ?thesis using assms by (simp add: settled_def)
qed

lemma buffer_exec_empty:
  assumes "resultBuffer (manager s) X = None" and "settled X s"
    and "\<forall>e\<in>set evs. \<not> registers X e \<and> \<not> opens X e"
  shows "resultBuffer (manager (exec d evs s)) X = None \<and> settled X (exec d evs s)"
  using assms
proof (induction evs arbitrary: s)
  case Nil
  then show ?case by (simp add: exec_Nil)
next
  case (Cons e evs)
  have "resultBuffer (manager (step d e s)) X = None \<and> settled X (step d e s)"
    using Cons.prems by (intro buffer_step_empty) simp_all
  then show ?case
    using Cons.prems by (simp add: exec_Cons Cons.IH)
qed

subsection \<open>The fragment and the redirect port\<close>

lemma discoverResult_hash:
  assumes "\<And>w h. d (w\<lparr>location_hash := h\<rparr>) = d w"
  shows "discoverResult d rid (a\<lparr>win := (win a)\<lparr>location_hash := h\<rparr>\<rparr>) =
     (fst (discoverResult d rid a),
      (snd (discoverResult d rid a))\<lparr>win := (win a)\<lparr>location_hash := h\<rparr>\<rparr>)"
  by (simp add: discoverResult_def getProperty_def assms split: option.splits)

lemma registrable_forgetHash: "registrable (manager (forgetHash s)) rid = registrable (manager s) rid"
  by (simp add: registrable_def forgetHash_def)

lemma runMicrotask_forgetHash: "forgetHash (runMicrotask s) = runMicrotask (forgetHash s)"
proof (cases "microtasks s")
  case Nil
  then show ?thesis by (simp add: runMicrotask_def forgetHash_def)
next
  case (Cons job rest)
  show ?thesis
  proof (cases job)
    case (AcceptResultReaction r p)
    have q: "microtasks (forgetHash s) = AcceptResultReaction r p # rest"
      using Cons AcceptResultReaction by (simp add: forgetHash_def)
    show ?thesis
    proof (cases "registrable (manager s) r")
      case True
      then show ?thesis
        using Cons AcceptResultReaction
          runMicrotask_reaction[OF q True[folded registrable_forgetHash[of s r]]]
        by (simp add: runMicrotask_reaction) (simp add: forgetHash_def handlersFor_def)
    next
      case False
      then show ?thesis
        using Cons AcceptResultReaction
          runMicrotask_reaction_throws[OF q False[folded registrable_forgetHash[of s r]]]
        by (simp add: runMicrotask_reaction_throws) (simp add: forgetHash_def)
    qed
  next
    case (CallbackReaction p c)
    have q: "microtasks (forgetHash s) = CallbackReaction p c # rest"
      using Cons CallbackReaction by (simp add: forgetHash_def)
    show ?thesis
      using Cons CallbackReaction runMicrotask_callback[OF q]
      by (simp add: runMicrotask_callback) (simp add: forgetHash_def)
  qed
qed

lemma step_forgetHash:
  assumes "\<And>w h. d (w\<lparr>location_hash := h\<rparr>) = d w"
  shows "forgetHash (step d e s) = (if assignsHash e then forgetHash s else step d e (forgetHash s))"
proof (cases e)
  case (CallOnResult r c)
  show ?thesis
  proof (cases "registrable (manager s) r")
    case True
    have "onResult d r c (forgetHash s) = Inr (forgetHash (step d e s))"
      using True CallOnResult
      by (simp add: onResult_eq registrable_forgetHash)
         (simp add: forgetHash_def discoverResult_hash[of d, OF assms] discoverResult_frame
            handlersFor_def)
    then show ?thesis using CallOnResult by simp
  next
    case False
    have "onResult d r c (forgetHash s) = Inl (TypeError ''handlers.push is not a function'')"
      using False by (simp add: onResult_throws registrable_forgetHash)
    then show ?thesis
      using CallOnResult False by (simp add: onResult_throws) (simp add: forgetHash_def)
  qed
next
  case (CallOpen r u t a ob)
  then show ?thesis by (simp add: open_eq forgetHash_def)
next
  case (ResultAccepted q)
  then show ?thesis by (simp add: acceptResultResolves_def forgetHash_def)
next
  case Microtask
  then show ?thesis by (simp add: runMicrotask_forgetHash)
next
  case (AssignHash h)
  then show ?thesis by (simp add: forgetHash_def)
qed

lemma exec_forgetHash:
  assumes "\<And>w h. d (w\<lparr>location_hash := h\<rparr>) = d w"
  shows "forgetHash (exec d evs s) = exec d (withoutHashAssignments evs) (forgetHash s)"
proof (induction evs arbitrary: s)
  case Nil
  show ?case by (simp add: exec_Nil withoutHashAssignments_def)
next
  case (Cons e evs)
  have "forgetHash (exec d (e # evs) s) = exec d (withoutHashAssignments evs) (forgetHash (step d e s))"
    by (simp add: exec_Cons Cons.IH)
  then show ?case
    by (simp add: step_forgetHash[of d, OF assms] withoutHashAssignments_def exec_Cons)
qed

lemma fragment_step: "fragment (manager (step d e t)) = fragment (manager t)"
proof (cases e)
  case (CallOnResult r c)
  then show ?thesis
    by (cases "registrable (manager t) r")
       (simp_all add: onResult_eq onResult_throws discoverResult_frame)
next
  case (CallOpen r u tg a ob)
  then show ?thesis by (simp add: open_eq)
next
  case (ResultAccepted q)
  then show ?thesis by (simp add: acceptResultResolves_def)
next
  case Microtask
  show ?thesis
  proof (cases "microtasks t")
    case Nil
    then show ?thesis using Microtask by (simp add: runMicrotask_Nil)
  next
    case (Cons job rest)
    show ?thesis
    proof (cases job)
      case (AcceptResultReaction r p)
      then show ?thesis
        using Microtask Cons
        by (cases "registrable (manager t) r")
           (simp_all add: runMicrotask_reaction runMicrotask_reaction_throws)
    next
      case (CallbackReaction p c)
      then show ?thesis using Microtask Cons by (simp add: runMicrotask_callback)
    qed
  qed
next
  case (AssignHash h)
  then show ?thesis by simp
qed

lemma fragment_exec: "fragment (manager (exec d evs t)) = fragment (manager t)"
  by (induction evs arbitrary: t) (simp_all add: exec_Nil exec_Cons fragment_step)

lemma win_self_step: "win_self (win (manager (step d e t))) = win_self (win (manager t))"
proof (cases e)
  case (CallOnResult r c)
  then show ?thesis
    by (cases "registrable (manager t) r")
       (simp_all add: onResult_eq onResult_throws discoverResult_frame)
next
  case (CallOpen r u tg a ob)
  then show ?thesis by (simp add: open_eq)
next
  case (ResultAccepted q)
  then show ?thesis by (simp add: acceptResultResolves_def)
next
  case Microtask
  show ?thesis
  proof (cases "microtasks t")
    case Nil
    then show ?thesis using Microtask by (simp add: runMicrotask_Nil)
  next
    case (Cons job rest)
    show ?thesis
    proof (cases job)
      case (AcceptResultReaction r p)
      then show ?thesis
        using Microtask Cons
        by (cases "registrable (manager t) r")
           (simp_all add: runMicrotask_reaction runMicrotask_reaction_throws)
    next
      case (CallbackReaction p c)
      then show ?thesis
        using Microtask Cons by (simp add: runMicrotask_callback)
    qed
  qed
next
  case (AssignHash h)
  then show ?thesis by simp
qed

lemma win_self_exec: "win_self (win (manager (exec d evs t))) = win_self (win (manager t))"
  by (induction evs arbitrary: t) (simp_all add: exec_Nil exec_Cons win_self_step)

lemma discoverRedirectPort_hash:
  "discoverRedirectPort decode (w\<lparr>location_hash := h\<rparr>) = discoverRedirectPort decode w"
  by (simp add: discoverRedirectPort_def fun_eq_iff split: option.splits)

lemma discoverRedirectPort_tagged:
  assumes "decode f = Some response"
  shows "discoverRedirectPort decode w f r =
           (if res_requestId response = r
            then Some (ActivityWindowRedirectPort (win_self w) response) else None)"
  using assms by (simp add: discoverRedirectPort_def)

lemma forgetHash_observed:
  "calls (forgetHash s) = calls s"
  "microtasks (forgetHash s) = microtasks s"
  "resultBuffer (manager (forgetHash s)) = resultBuffer (manager s)"
  "requestHandlers (manager (forgetHash s)) = requestHandlers (manager s)"
  "fragment (manager (forgetHash s)) = fragment (manager s)"
  by (simp_all add: forgetHash_def)

subsection \<open>Registrations\<close>

lemma registrations_Nil: "registrations rid [] = []"
  by (simp add: registrations_def)

lemma registrations_Cons: "registrations rid (e # evs) = registered rid e @ registrations rid evs"
  by (simp add: registrations_def)

lemma registrations_append:
  "registrations rid (xs @ ys) = registrations rid xs @ registrations rid ys"
  by (simp add: registrations_def)

lemma unregistered_registrations:
  "\<forall>e\<in>set evs. \<not> registers X e \<Longrightarrow> registrations X evs = []"
proof (induction evs)
  case Nil
  show ?case by (simp add: registrations_Nil)
next
  case (Cons e es)
  then have "\<not> registers X e" by simp
  then have "registered X e = []" by (cases e) simp_all
  with Cons show ?case by (simp add: registrations_Cons)
qed

lemma registers_registersOrRuns: "registers rid e \<Longrightarrow> registersOrRuns rid e"
  by (cases e) simp_all

lemma onResult_buffered:
  "rid \<notin> set objectPrototypeMembers \<Longrightarrow> resultBuffer (manager s) rid = Some p \<Longrightarrow>
   step d (CallOnResult rid c) s =
     s\<lparr>manager := (manager s)\<lparr>requestHandlers :=
          (requestHandlers (manager s))(rid \<mapsto> handlersFor (manager s) rid @ [c])\<rparr>,
       microtasks := microtasks s @ [CallbackReaction p c]\<rparr>"
  by (simp add: onResult_eq ordinary_registrable discoverResult_def getProperty_def)

lemma onResult_none:
  "rid \<notin> set objectPrototypeMembers \<Longrightarrow> resultBuffer (manager s) rid = None \<Longrightarrow>
   fragment (manager s) = [] \<or> d (win (manager s)) (fragment (manager s)) rid = None \<Longrightarrow>
   step d (CallOnResult rid c) s =
     s\<lparr>manager := (manager s)\<lparr>requestHandlers :=
          (requestHandlers (manager s))(rid \<mapsto> handlersFor (manager s) rid @ [c])\<rparr>\<rparr>"
  by (auto simp add: onResult_eq ordinary_registrable discoverResult_def getProperty_def)

lemma onResult_discovered:
  "rid \<notin> set objectPrototypeMembers \<Longrightarrow> resultBuffer (manager s) rid = None \<Longrightarrow>
   fragment (manager s) \<noteq> [] \<Longrightarrow>
   d (win (manager s)) (fragment (manager s)) rid = Some p \<Longrightarrow>
   step d (CallOnResult rid c) s =
     s\<lparr>manager := (manager s)\<lparr>requestHandlers :=
          (requestHandlers (manager s))(rid \<mapsto> handlersFor (manager s) rid @ [c]),
          resultBuffer := (resultBuffer (manager s))(rid \<mapsto> p)\<rparr>,
       microtasks := microtasks s @ [CallbackReaction p c]\<rparr>"
  by (simp add: onResult_eq ordinary_registrable discoverResult_def getProperty_def)

lemma quiet_registrations:
  assumes "resultBuffer (manager s) rid = None"
    and ordinary: "rid \<notin> set objectPrototypeMembers"
    and "fragment (manager s) = [] \<or> d (win (manager s)) (fragment (manager s)) rid = None"
    and "\<forall>e\<in>set evs. registersOrRuns rid e"
    and "microtasks s = [] \<or> (\<forall>e\<in>set evs. registers rid e)"
  shows "\<exists>hm. exec d evs s = s\<lparr>manager := (manager s)\<lparr>requestHandlers := hm\<rparr>\<rparr>
            \<and> (case hm rid of None \<Rightarrow> [] | Some hs \<Rightarrow> hs)
                = handlersFor (manager s) rid @ registrations rid evs"
  using assms(4,5)
proof (induction evs rule: rev_induct)
  case Nil
  show ?case
    by (intro exI[of _ "requestHandlers (manager s)"])
       (simp add: exec_Nil registrations_Nil handlersFor_def)
next
  case (snoc e evs)
  then obtain hm where
    ex: "exec d evs s = s\<lparr>manager := (manager s)\<lparr>requestHandlers := hm\<rparr>\<rparr>" and
    hs: "(case hm rid of None \<Rightarrow> [] | Some hs \<Rightarrow> hs)
           = handlersFor (manager s) rid @ registrations rid evs"
    by auto
  let ?t = "s\<lparr>manager := (manager s)\<lparr>requestHandlers := hm\<rparr>\<rparr>"
  have st: "exec d (evs @ [e]) s = step d e ?t"
    by (simp add: exec_append exec_Cons exec_Nil ex)
  show ?case
  proof (cases e)
    case (CallOnResult r c)
    with snoc.prems have r: "r = rid" by simp
    have "step d (CallOnResult rid c) ?t =
       ?t\<lparr>manager := (manager ?t)\<lparr>requestHandlers :=
          (requestHandlers (manager ?t))(rid \<mapsto> handlersFor (manager ?t) rid @ [c])\<rparr>\<rparr>"
      using assms(1,3) ordinary by (intro onResult_none) simp_all
    then have "step d e ?t =
       s\<lparr>manager := (manager s)\<lparr>requestHandlers :=
            hm(rid \<mapsto> (case hm rid of None \<Rightarrow> [] | Some hs \<Rightarrow> hs) @ [c])\<rparr>\<rparr>"
      unfolding CallOnResult r by (simp add: handlersFor_def del: step.simps)
    with st have "exec d (evs @ [e]) s =
       s\<lparr>manager := (manager s)\<lparr>requestHandlers :=
            hm(rid \<mapsto> (case hm rid of None \<Rightarrow> [] | Some hs \<Rightarrow> hs) @ [c])\<rparr>\<rparr>"
      by simp
    moreover have "(case (hm(rid \<mapsto> (case hm rid of None \<Rightarrow> [] | Some hs \<Rightarrow> hs) @ [c])) rid of
                      None \<Rightarrow> [] | Some hs \<Rightarrow> hs)
                   = handlersFor (manager s) rid @ registrations rid (evs @ [e])"
      using hs CallOnResult r
      by (simp add: registrations_append registrations_Cons registrations_Nil)
    ultimately show ?thesis by blast
  next
    case Microtask
    with snoc.prems have "microtasks s = []" by auto
    then have "step d e ?t = ?t" using Microtask by (simp add: runMicrotask_Nil)
    then show ?thesis
      using st hs Microtask
      by (intro exI[of _ hm])
         (simp add: registrations_append registrations_Cons registrations_Nil)
  next
    case (CallOpen r u t a ob)
    with snoc.prems show ?thesis by simp
  next
    case (ResultAccepted p)
    with snoc.prems show ?thesis by simp
  next
    case (AssignHash h)
    with snoc.prems show ?thesis by simp
  qed
qed

lemma delivered_registrations:
  assumes "resultBuffer (manager s) rid = Some p"
    and ordinary: "rid \<notin> set objectPrototypeMembers"
    and "list_all isCallbackJob (microtasks s)"
    and "\<forall>e\<in>set evs. registersOrRuns rid e"
  shows "calls (drain (exec d evs s)) =
           calls s @ invocations (microtasks s) @ map (\<lambda>c. (c, p)) (registrations rid evs)"
  using assms
proof (induction evs arbitrary: s)
  case Nil
  then show ?case
    by (simp add: exec_Nil registrations_Nil drain_calls deliveries_callbacks)
next
  case (Cons e evs)
  show ?case
  proof (cases e)
    case (CallOnResult r c)
    with Cons.prems have r: "r = rid" by simp
    define t where "t = step d (CallOnResult rid c) s"
    have t: "t = s\<lparr>manager := (manager s)\<lparr>requestHandlers :=
          (requestHandlers (manager s))(rid \<mapsto> handlersFor (manager s) rid @ [c])\<rparr>,
       microtasks := microtasks s @ [CallbackReaction p c]\<rparr>"
      unfolding t_def using Cons.prems(2,1) by (rule onResult_buffered)
    have "calls (drain (exec d evs t)) =
           calls t @ invocations (microtasks t) @ map (\<lambda>c. (c, p)) (registrations rid evs)"
      using Cons.prems by (intro Cons.IH) (simp_all add: t)
    moreover have "exec d (e # evs) s = exec d evs t"
      unfolding exec_Cons t_def CallOnResult r by (rule refl)
    ultimately show ?thesis
      using CallOnResult r
      by (simp add: registrations_Cons t invocations_append)
  next
    case Microtask
    show ?thesis
    proof (cases "microtasks s")
      case Nil
      then show ?thesis
        using Microtask Cons.IH[of s] Cons.prems
        by (simp add: exec_Cons registrations_Cons runMicrotask_Nil)
    next
      case (Cons job rest)
      with Cons.prems(3) obtain q c where job: "job = CallbackReaction q c"
        by (cases job) auto
      let ?t = "runMicrotask s"
      have t: "?t = s\<lparr>microtasks := rest, calls := calls s @ [(c, q)],
                 rejections := rejections s @ failures [(c, q)]\<rparr>"
        using Cons job by (simp add: runMicrotask_callback)
      have "calls (drain (exec d evs ?t)) =
           calls ?t @ invocations (microtasks ?t) @ map (\<lambda>c. (c, p)) (registrations rid evs)"
        using Cons.prems Cons by (intro Cons.IH) (simp_all add: t)
      then show ?thesis
        using Microtask Cons job
        by (simp add: exec_Cons registrations_Cons t)
    qed
  next
    case (CallOpen r u t a ob)
    with Cons.prems show ?thesis by simp
  next
    case (ResultAccepted q)
    with Cons.prems show ?thesis by simp
  next
    case (AssignHash h)
    with Cons.prems show ?thesis by simp
  qed
qed

lemma handlers_step:
  "handlersFor (manager (step d e s)) rid =
     handlersFor (manager s) rid @ (if registrable (manager s) rid then registered rid e else [])"
proof (cases e)
  case (CallOnResult r c)
  show ?thesis
  proof (cases "registrable (manager s) r")
    case True
    then show ?thesis
      using CallOnResult by (auto simp add: onResult_eq handlersFor_def)
  next
    case False
    then show ?thesis
      using CallOnResult by (auto simp add: onResult_throws)
  qed
next
  case (CallOpen r u t a ob)
  then show ?thesis by (simp add: open_eq handlersFor_def)
next
  case (ResultAccepted p)
  then show ?thesis by (simp add: acceptResultResolves_def handlersFor_def)
next
  case Microtask
  show ?thesis
  proof (cases "microtasks s")
    case Nil
    then show ?thesis using Microtask by (simp add: runMicrotask_Nil)
  next
    case (Cons job rest)
    show ?thesis
    proof (cases job)
      case (AcceptResultReaction r p)
      then show ?thesis
        using Microtask Cons
        by (cases "registrable (manager s) r")
           (simp_all add: runMicrotask_reaction runMicrotask_reaction_throws handlersFor_def)
    next
      case (CallbackReaction p c)
      then show ?thesis
        using Microtask Cons by (simp add: runMicrotask_callback handlersFor_def)
    qed
  qed
next
  case (AssignHash h)
  then show ?thesis by (simp add: handlersFor_def)
qed

lemma handlers_exec_prefix:
  "\<exists>ys. handlersFor (manager (exec d evs s)) rid = handlersFor (manager s) rid @ ys"
proof (induction evs arbitrary: s)
  case Nil
  show ?case by (simp add: exec_Nil)
next
  case (Cons e evs)
  obtain ys where "handlersFor (manager (exec d evs (step d e s))) rid
                     = handlersFor (manager (step d e s)) rid @ ys"
    using Cons.IH by blast
  then show ?case
    unfolding exec_Cons by (simp only: handlers_step append_assoc) blast
qed

lemma handlers_exec:
  "rid \<notin> set objectPrototypeMembers \<Longrightarrow>
   handlersFor (manager (exec d evs s)) rid = handlersFor (manager s) rid @ registrations rid evs"
  by (induction evs arbitrary: s)
     (simp_all add: exec_Nil exec_Cons registrations_Nil registrations_Cons handlers_step
        ordinary_registrable)

subsection \<open>Redirect ports stay with their request\<close>

lemma jobKeeps_mono: "jobKeeps hs job \<Longrightarrow> set hs \<subseteq> set hs' \<Longrightarrow> jobKeeps hs' job"
  by (cases job) auto

lemma confined_step:
  assumes inv: "redirectConfined X s"
    and only: "\<forall>w r p. d w (fragment (manager s)) r = Some p \<longrightarrow> r = X"
  shows "redirectConfined X (step d e s)"
proof (cases e)
  case (CallOnResult r c)
  show ?thesis
  proof (cases "registrable (manager s) r")
    case False
    then have "step d e s = s\<lparr>uncaught := uncaught s
                 @ [TypeError ''handlers.push is not a function'']\<rparr>"
      using CallOnResult by (simp add: onResult_throws)
    then show ?thesis
      using inv unfolding redirectConfined_def by (simp add: handlersFor_def)
  next
    case reg: True
    obtain res a' where dr: "discoverResult d r (manager s) = (res, a')"
      by (cases "discoverResult d r (manager s)")
    have hs: "set (handlersFor (manager s) X) \<subseteq> set (handlersFor (manager (step d e s)) X)"
      by (simp add: handlers_step)
    show ?thesis
    proof (cases res)
      case None
      with dr have a': "a' = manager s" by (simp add: discoverResult_None)
      have st: "step d e s = s\<lparr>manager := (manager s)\<lparr>requestHandlers :=
            (requestHandlers (manager s))(r \<mapsto> handlersFor (manager s) r @ [c])\<rparr>\<rparr>"
        using CallOnResult dr None a' by (simp add: onResult_eq[OF reg])
      show ?thesis
        using inv hs jobKeeps_mono[OF _ hs]
        unfolding redirectConfined_def
        by (auto simp add: st)
    next
      case (Some p)
      from discoverResult_cases[OF dr[unfolded Some]]
      have px: "isRedirectPort p \<longrightarrow> r = X"
        using inv only unfolding redirectConfined_def by auto
      have buf: "resultBuffer a' = resultBuffer (manager s)
                 \<or> resultBuffer a' = (resultBuffer (manager s))(r \<mapsto> p)"
        using discoverResult_cases[OF dr[unfolded Some]] by auto
      have st: "step d e s = s\<lparr>manager := a'\<lparr>requestHandlers :=
            (requestHandlers (manager s))(r \<mapsto> handlersFor (manager s) r @ [c])\<rparr>,
            microtasks := microtasks s @ [CallbackReaction p c]\<rparr>"
        using CallOnResult dr Some by (simp add: onResult_eq[OF reg])
      have "handlersFor (manager (step d e s)) X
            = handlersFor (manager s) X
              @ (if registrable (manager s) X then registered X e else [])"
        by (rule handlers_step)
      then have new: "jobKeeps (handlersFor (manager (step d e s)) X) (CallbackReaction p c)"
        using px CallOnResult reg by auto
      have b: "\<forall>rid q. resultBuffer a' rid = Some q \<longrightarrow> isRedirectPort q \<longrightarrow> rid = X"
        using inv buf px unfolding redirectConfined_def by (auto split: if_splits)
      have q: "\<forall>job\<in>set (microtasks (step d e s)).
                  jobKeeps (handlersFor (manager (step d e s)) X) job"
        using inv new jobKeeps_mono[OF _ hs] unfolding redirectConfined_def
        by (auto simp add: st)
      have c: "\<forall>cp\<in>set (calls (step d e s)). isRedirectPort (snd cp) \<longrightarrow>
                  fst cp \<in> set (handlersFor (manager (step d e s)) X)"
        using inv hs unfolding redirectConfined_def by (auto simp add: st)
      have r: "\<forall>r\<in>set (acceptReactions (step d e s)). jobKeeps [] (snd r)"
        using inv unfolding redirectConfined_def by (simp add: st)
      show ?thesis
        unfolding redirectConfined_def using b q c r by (simp add: st)
    qed
  qed
next
  case (CallOpen r u t a ob)
  then show ?thesis
    using inv unfolding redirectConfined_def by (auto simp add: open_eq handlersFor_def)
next
  case (ResultAccepted q)
  have "jobKeeps (handlersFor (manager s) X) (snd r)" if "r \<in> set (acceptReactions s)" for r
    using inv that jobKeeps_mono[of "[]" "snd r"] unfolding redirectConfined_def by auto
  then show ?thesis
    using ResultAccepted inv unfolding redirectConfined_def
    by (auto simp add: acceptResultResolves_def handlersFor_def)
next
  case Microtask
  show ?thesis
  proof (cases "microtasks s")
    case Nil
    then show ?thesis using Microtask inv by (simp add: runMicrotask_Nil)
  next
    case (Cons job rest)
    show ?thesis
    proof (cases job)
      case (AcceptResultReaction r p)
      show ?thesis
      proof (cases "registrable (manager s) r")
        case True
        then show ?thesis
          using AcceptResultReaction Microtask Cons inv unfolding redirectConfined_def
          by (auto simp add: runMicrotask_reaction handlersFor_def)
      next
        case False
        then show ?thesis
          using AcceptResultReaction Microtask Cons inv unfolding redirectConfined_def
          by (auto simp add: runMicrotask_reaction_throws handlersFor_def)
      qed
    next
      case (CallbackReaction p c)
      then show ?thesis
        using Microtask Cons inv unfolding redirectConfined_def
        by (auto simp add: runMicrotask_callback handlersFor_def)
    qed
  qed
next
  case (AssignHash h)
  then show ?thesis
    using inv unfolding redirectConfined_def by (simp add: handlersFor_def)
qed

lemma confined_exec:
  assumes "redirectConfined X s"
    and "\<forall>w r p. d w (fragment (manager s)) r = Some p \<longrightarrow> r = X"
  shows "redirectConfined X (exec d evs s)"
  using assms
proof (induction evs arbitrary: s)
  case Nil
  then show ?case by (simp add: exec_Nil)
next
  case (Cons e evs)
  have "redirectConfined X (step d e s)"
    using Cons.prems by (rule confined_step)
  moreover have "\<forall>w r p. d w (fragment (manager (step d e s))) r = Some p \<longrightarrow> r = X"
    using Cons.prems(2) by (simp add: fragment_step)
  ultimately show ?case
    unfolding exec_Cons by (rule Cons.IH)
qed

lemma confined_new_page: "redirectConfined X (new_page w)"
  by (simp add: redirectConfined_def new_page_def new_Activities_def)

section \<open>Request ids that name no member of \<open>Object.prototype\<close>\<close>

text \<open>
  For a request id outside \<open>objectPrototypeMembers\<close> the lookups in the two registries
  find own properties only, and the registries behave as dictionaries.
\<close>

text \<open>
  Registrations before and after a result. On a page with no result yet for the request
  id and an idle microtask queue, callbacks are registered, \<open>open\<close> is called, the port's
  result is accepted, the reaction of \<open>open\<close> runs, and further callbacks are registered.
  Once the queue is drained, every callback registered before the arrival has been
  invoked once with the opened port, in registration order, and after them every
  callback registered later, each once with the same port.
\<close>

lemma ordinary_registrations_before_and_after_result:
  assumes ordinary: "rid \<notin> set objectPrototypeMembers"
    and nobuf: "resultBuffer (manager s) rid = None"
    and nofrag: "fragment (manager s) = []
                 \<or> discover (win (manager s)) (fragment (manager s)) rid = None"
    and idle: "microtasks s = []"
    and port: "port = ActivityWindowPort (nextObj s) (win_self (win (manager s)))
                        rid url target args opts"
    and fresh: "\<forall>r\<in>set (acceptReactions s). fst r \<noteq> port"
    and pre1: "\<forall>e\<in>set pre1. registersOrRuns rid e"
    and pre2: "\<forall>e\<in>set pre2. registersOrRuns rid e"
    and pre3: "\<forall>e\<in>set pre3. registers rid e"
    and post: "\<forall>e\<in>set post. registersOrRuns rid e"
  shows "calls (drain (exec discover
            (pre1 @ [CallOpen rid url target args opts] @ pre2 @ [ResultAccepted port]
               @ pre3 @ [Microtask] @ post) s))
         = calls s
           @ map (\<lambda>c. (c, port))
               (handlersFor (manager s) rid @ registrations rid (pre1 @ pre2 @ pre3))
           @ map (\<lambda>c. (c, port)) (registrations rid post)"
proof -
  obtain hm1 where
    s1: "exec discover pre1 s = s\<lparr>manager := (manager s)\<lparr>requestHandlers := hm1\<rparr>\<rparr>" and
    h1: "(case hm1 rid of None \<Rightarrow> [] | Some hs \<Rightarrow> hs)
           = handlersFor (manager s) rid @ registrations rid pre1"
    using quiet_registrations[where d = discover, OF nobuf ordinary nofrag pre1] idle by blast
  define s2 where "s2 = step discover (CallOpen rid url target args opts) (exec discover pre1 s)"
  have s2: "s2 = s\<lparr>manager := (manager s)\<lparr>requestHandlers := hm1\<rparr>,
                   nextObj := Suc (nextObj s),
                   opened := opened s @ [port],
                   acceptReactions := acceptReactions s @ [(port, AcceptResultReaction rid port)]\<rparr>"
    by (simp add: s2_def s1 open_eq port)
  have "\<exists>hm. exec discover pre2 s2 = s2\<lparr>manager := (manager s2)\<lparr>requestHandlers := hm\<rparr>\<rparr>
            \<and> (case hm rid of None \<Rightarrow> [] | Some hs \<Rightarrow> hs)
                = handlersFor (manager s2) rid @ registrations rid pre2"
    using nobuf ordinary nofrag idle pre2
    by (intro quiet_registrations[where d = discover and s = s2]) (simp_all add: s2)
  then obtain hm2 where
    s3: "exec discover pre2 s2 = s2\<lparr>manager := (manager s2)\<lparr>requestHandlers := hm2\<rparr>\<rparr>" and
    h2: "(case hm2 rid of None \<Rightarrow> [] | Some hs \<Rightarrow> hs)
           = handlersFor (manager s2) rid @ registrations rid pre2"
    by blast
  have s3e: "exec discover pre2 s2 =
               s\<lparr>manager := (manager s)\<lparr>requestHandlers := hm2\<rparr>,
                 nextObj := Suc (nextObj s),
                 opened := opened s @ [port],
                 acceptReactions := acceptReactions s @ [(port, AcceptResultReaction rid port)]\<rparr>"
    unfolding s3 by (simp add: s2)
  define s4 where "s4 = step discover (ResultAccepted port) (exec discover pre2 s2)"
  have s4: "s4 = s\<lparr>manager := (manager s)\<lparr>requestHandlers := hm2\<rparr>,
                   nextObj := Suc (nextObj s),
                   opened := opened s @ [port],
                   acceptReactions := acceptReactions s,
                   microtasks := [AcceptResultReaction rid port]\<rparr>"
    using filter_fresh[OF fresh] idle
    unfolding s4_def s3e by (simp add: acceptResultResolves_def)
  have "\<exists>hm. exec discover pre3 s4 = s4\<lparr>manager := (manager s4)\<lparr>requestHandlers := hm\<rparr>\<rparr>
            \<and> (case hm rid of None \<Rightarrow> [] | Some hs \<Rightarrow> hs)
                = handlersFor (manager s4) rid @ registrations rid pre3"
    using nobuf ordinary nofrag pre3
  proof (intro quiet_registrations[where d = discover and s = s4])
    show "\<forall>e\<in>set pre3. registersOrRuns rid e"
    proof
      fix e assume "e \<in> set pre3"
      with pre3 have "registers rid e" by simp
      then show "registersOrRuns rid e" by (cases e) simp_all
    qed
  qed (simp_all add: s4)
  then obtain hm3 where
    s5: "exec discover pre3 s4 = s4\<lparr>manager := (manager s4)\<lparr>requestHandlers := hm3\<rparr>\<rparr>" and
    h3: "(case hm3 rid of None \<Rightarrow> [] | Some hs \<Rightarrow> hs)
           = handlersFor (manager s4) rid @ registrations rid pre3"
    by blast
  have s5e: "exec discover pre3 s4 =
               s\<lparr>manager := (manager s)\<lparr>requestHandlers := hm3\<rparr>,
                 nextObj := Suc (nextObj s),
                 opened := opened s @ [port],
                 acceptReactions := acceptReactions s,
                 microtasks := [AcceptResultReaction rid port]\<rparr>"
    unfolding s5 by (simp add: s4)
  define s6 where "s6 = step discover Microtask (exec discover pre3 s4)"
  let ?pre = "handlersFor (manager s) rid @ registrations rid (pre1 @ pre2 @ pre3)"
  have hall: "(case hm3 rid of None \<Rightarrow> [] | Some hs \<Rightarrow> hs) = ?pre"
    using h1 h2 h3 by (simp add: s2 s4 handlersFor_def registrations_append)
  have s6: "s6 = s\<lparr>manager := (manager s)\<lparr>requestHandlers := hm3,
                       resultBuffer := (resultBuffer (manager s))(rid \<mapsto> port)\<rparr>,
                   nextObj := Suc (nextObj s),
                   opened := opened s @ [port],
                   acceptReactions := acceptReactions s,
                   microtasks := map (CallbackReaction port) ?pre\<rparr>"
    using hall
    unfolding s6_def s5e
    by (simp add: runMicrotask_reaction ordinary_registrable[OF ordinary] handlersFor_def)
  have "calls (drain (exec discover post s6)) =
          calls s6 @ invocations (microtasks s6) @ map (\<lambda>c. (c, port)) (registrations rid post)"
    using post ordinary
    by (intro delivered_registrations[where d = discover]) (simp_all add: s6 callbacks_map)
  moreover have "exec discover
            (pre1 @ [CallOpen rid url target args opts] @ pre2 @ [ResultAccepted port]
               @ pre3 @ [Microtask] @ post) s = exec discover post s6"
    by (simp add: exec_append exec_Cons exec_Nil s6_def s4_def s2_def)
  ultimately show ?thesis
    by (simp add: s6 invocations_map invocations_append)
qed

text \<open>
  A result that is available when \<open>onResult\<close> is called: a port is buffered under the
  request id, or nothing is buffered and the port is discoverable in the captured
  fragment. The call returns and invokes nothing; it queues one job for the callback
  behind the jobs already waiting. Draining the queue invokes the callback once with
  that port, and callbacks registered for the request id later in the same turn are
  invoked after it, each once.
\<close>

lemma ordinary_available_result_delivered:
  assumes ordinary: "rid \<notin> set objectPrototypeMembers"
    and available: "resultBuffer (manager s) rid = Some p
                    \<or> (resultBuffer (manager s) rid = None \<and> fragment (manager s) \<noteq> []
                       \<and> discover (win (manager s)) (fragment (manager s)) rid = Some p)"
    and queue: "list_all isCallbackJob (microtasks s)"
    and later: "\<forall>e\<in>set later. registers rid e"
  shows "(\<exists>t. onResult discover rid c s = Inr t)
         \<and> calls (step discover (CallOnResult rid c) s) = calls s
         \<and> microtasks (step discover (CallOnResult rid c) s)
             = microtasks s @ [CallbackReaction p c]
         \<and> calls (drain (step discover (CallOnResult rid c) s))
             = calls s @ invocations (microtasks s) @ [(c, p)]
         \<and> calls (drain (exec discover later (step discover (CallOnResult rid c) s)))
             = calls s @ invocations (microtasks s) @ [(c, p)]
               @ map (\<lambda>h. (h, p)) (registrations rid later)"
proof -
  define t where "t = step discover (CallOnResult rid c) s"
  have reg: "registrable (manager s) rid"
    using ordinary by (rule ordinary_registrable)
  have found: "discoverResult discover rid (manager s)
               = (Some p, (manager s)\<lparr>resultBuffer := (resultBuffer (manager s))(rid \<mapsto> p)\<rparr>)"
  proof (cases "resultBuffer (manager s) rid")
    case None
    then show ?thesis
      using available ordinary by (auto simp add: discoverResult_def getProperty_def)
  next
    case (Some q)
    then have q: "q = p" using available by auto
    have "(resultBuffer (manager s))(rid \<mapsto> p) = resultBuffer (manager s)"
      using Some q by (simp add: fun_upd_idem)
    then show ?thesis
      using Some q by (simp add: discoverResult_def getProperty_def)
  qed
  have t: "t = s\<lparr>manager := (manager s)\<lparr>requestHandlers :=
                   (requestHandlers (manager s))(rid \<mapsto> handlersFor (manager s) rid @ [c]),
                   resultBuffer := (resultBuffer (manager s))(rid \<mapsto> p)\<rparr>,
                 microtasks := microtasks s @ [CallbackReaction p c]\<rparr>"
    unfolding t_def by (simp add: onResult_eq[OF reg] found)
  have 0: "\<exists>u. onResult discover rid c s = Inr u"
    by (simp add: onResult_eq[OF reg])
  have c: "calls t = calls s" and q: "microtasks t = microtasks s @ [CallbackReaction p c]"
    and b: "resultBuffer (manager t) rid = Some p"
    by (simp_all add: t)
  have cbs: "list_all isCallbackJob (microtasks t)"
    using queue by (simp add: q)
  have ror: "\<forall>e\<in>set later. registersOrRuns rid e"
    using later registers_registersOrRuns by blast
  have 3: "calls (drain t) = calls s @ invocations (microtasks s) @ [(c, p)]"
    by (simp add: drain_callbacks(1)[OF cbs] c q invocations_append)
  have 4: "calls (drain (exec discover later t))
             = calls s @ invocations (microtasks s) @ [(c, p)]
               @ map (\<lambda>h. (h, p)) (registrations rid later)"
    using delivered_registrations[where d = discover, OF b ordinary cbs ror]
    by (simp add: c q invocations_append)
  from 0 c q 3 4 show ?thesis
    unfolding t_def by blast
qed

text \<open>
  \<open>open\<close> returns \<open>undefined\<close>, invokes nothing, opens the port and waits for its result.
  When the reaction runs on a page where the lookup of the request id in the handler
  registry does not end at an inherited member, it queues one job per registered
  callback, stores the port in the buffer whether or not a callback is registered, and
  draining the queue invokes every registered callback once with the port.
\<close>

lemma registrable_result_dispatched_and_buffered:
  assumes port: "port = ActivityWindowPort (nextObj s) (win_self (win (manager s)))
                          rid url target args opts"
    and fresh: "\<forall>r\<in>set (acceptReactions s). fst r \<noteq> port"
    and turn: "microtasks t = [AcceptResultReaction rid port]"
    and can: "registrable (manager t) rid"
  shows "fst (open rid url target args opts s) = Undefined
         \<and> manager (snd (open rid url target args opts s)) = manager s
         \<and> microtasks (snd (open rid url target args opts s)) = microtasks s
         \<and> calls (snd (open rid url target args opts s)) = calls s
         \<and> opened (snd (open rid url target args opts s)) = opened s @ [port]
         \<and> microtasks (acceptResultResolves port (snd (open rid url target args opts s)))
             = microtasks s @ [AcceptResultReaction rid port]
         \<and> microtasks (runMicrotask t)
             = map (CallbackReaction port) (handlersFor (manager t) rid)
         \<and> resultBuffer (manager (runMicrotask t)) = (resultBuffer (manager t))(rid \<mapsto> port)
         \<and> calls (runMicrotask t) = calls t
         \<and> calls (drain t) = calls t @ map (\<lambda>c. (c, port)) (handlersFor (manager t) rid)"
proof -
  have "calls (drain t) = calls t @ map (\<lambda>c. (c, port)) (handlersFor (manager t) rid)"
    using turn by (simp add: drain_calls handlersFor_def)
  then show ?thesis
    using filter_fresh[OF fresh] turn can
    by (simp add: open_eq port[symmetric] acceptResultResolves_def runMicrotask_reaction)
qed

text \<open>
  A redirect result tagged \<open>X\<close> in the captured fragment. In every state the page
  reaches, a discovery for another request id \<open>Y\<close> changes nothing and finds no redirect
  port; every invocation of a callback with a redirect port is the invocation of a
  callback registered under \<open>X\<close>; and after events that neither register for \<open>X\<close> nor open
  it, no callback has been invoked with a redirect port and \<open>onResult(X, c)\<close> still finds
  the redirect result and queues its delivery to \<open>c\<close>.
\<close>

lemma ordinary_redirect_result_only_for_its_request:
  assumes tagged: "decode (location_hash w) = Some response"
    and tag: "res_requestId response = X"
    and nonempty: "location_hash w \<noteq> []"
    and other: "Y \<noteq> X"
    and others: "\<forall>e\<in>set evs. \<not> registers X e \<and> \<not> opens X e"
    and ordinary: "X \<notin> set objectPrototypeMembers"
  shows "snd (discoverResult (discoverRedirectPort decode) Y
            (manager (exec (discoverRedirectPort decode) evs' (new_page w))))
           = manager (exec (discoverRedirectPort decode) evs' (new_page w))
         \<and> (\<forall>p. fst (discoverResult (discoverRedirectPort decode) Y
                      (manager (exec (discoverRedirectPort decode) evs' (new_page w)))) = Some p
                \<longrightarrow> \<not> isRedirectPort p)
         \<and> (\<forall>cp\<in>set (calls (exec (discoverRedirectPort decode) evs' (new_page w))).
               isRedirectPort (snd cp) \<longrightarrow> fst cp \<in> set (registrations X evs'))
         \<and> (\<forall>cp\<in>set (calls (exec (discoverRedirectPort decode) evs (new_page w))).
               \<not> isRedirectPort (snd cp))
         \<and> microtasks (step (discoverRedirectPort decode) (CallOnResult X c)
                         (exec (discoverRedirectPort decode) evs (new_page w)))
           = microtasks (exec (discoverRedirectPort decode) evs (new_page w))
             @ [CallbackReaction (ActivityWindowRedirectPort (win_self w) response) c]"
proof -
  let ?D = "discoverRedirectPort decode"
  have frag: "fragment (manager (exec ?D es (new_page w))) = location_hash w" for es
    by (simp add: fragment_exec new_page_def new_Activities_def)
  have self: "win_self (win (manager (exec ?D es (new_page w)))) = win_self w" for es
    by (simp add: win_self_exec new_page_def new_Activities_def)
  have only: "\<forall>v r p. ?D v (fragment (manager (new_page w))) r = Some p \<longrightarrow> r = X"
    using tagged tag
    by (simp add: new_page_def new_Activities_def discoverRedirectPort_tagged)
  have conf: "redirectConfined X (exec ?D es (new_page w))" for es
    using confined_new_page only by (rule confined_exec)
  have bufY: "resultBuffer (manager (exec ?D evs' (new_page w))) Y = Some p \<Longrightarrow> \<not> isRedirectPort p"
    for p
    using conf[of evs'] other unfolding redirectConfined_def by blast
  have 1: "snd (discoverResult ?D Y (manager (exec ?D evs' (new_page w))))
           = manager (exec ?D evs' (new_page w))"
    using tagged tag other
    by (simp add: discoverResult_def getProperty_def frag discoverRedirectPort_tagged
          split: option.splits)
  have 5: "\<forall>p. fst (discoverResult ?D Y (manager (exec ?D evs' (new_page w)))) = Some p
                \<longrightarrow> \<not> isRedirectPort p"
    using tagged tag other bufY
    by (auto simp add: discoverResult_def getProperty_def frag discoverRedirectPort_tagged
          split: option.splits if_splits)
  have hs: "handlersFor (manager (exec ?D es (new_page w))) X = registrations X es" for es
    by (simp add: handlers_exec[OF ordinary]) (simp add: handlersFor_def new_page_def new_Activities_def)
  have 2: "\<forall>cp\<in>set (calls (exec ?D evs' (new_page w))).
               isRedirectPort (snd cp) \<longrightarrow> fst cp \<in> set (registrations X evs')"
    using conf[of evs'] unfolding redirectConfined_def by (simp add: hs)
  have none: "registrations X evs = []"
    using others by (simp add: unregistered_registrations)
  have 3: "\<forall>cp\<in>set (calls (exec ?D evs (new_page w))). \<not> isRedirectPort (snd cp)"
    using conf[of evs] unfolding redirectConfined_def by (simp add: hs none)
  have empty: "resultBuffer (manager (exec ?D evs (new_page w))) X = None"
    using others
    by (intro conjunct1[OF buffer_exec_empty])
       (simp_all add: new_page_def new_Activities_def settled_def)
  have 4: "microtasks (step ?D (CallOnResult X c) (exec ?D evs (new_page w)))
           = microtasks (exec ?D evs (new_page w))
             @ [CallbackReaction (ActivityWindowRedirectPort (win_self w) response) c]"
    using empty tagged tag nonempty ordinary
    by (simp add: onResult_eq[OF ordinary_registrable[OF ordinary]] discoverResult_def
          getProperty_def frag self discoverRedirectPort_tagged)
  from 1 5 2 3 4 show ?thesis by blast
qed

text \<open>
  Callbacks stay in the registry. After any history of events the registry of a request
  id is its earlier content followed by what was added; a further \<open>open\<close> whose result
  is accepted leads, once the queue is drained, to one more invocation of every callback
  in the registry of the request id, with the new port.
\<close>

lemma results_delivered_to_all_registered:
  assumes queue: "list_all isCallbackJob (microtasks (exec discover evs s))"
    and port: "port = ActivityWindowPort (nextObj (exec discover evs s))
                        (win_self (win (manager (exec discover evs s)))) rid url target args opts"
    and fresh: "\<forall>r\<in>set (acceptReactions (exec discover evs s)). fst r \<noteq> port"
  shows "calls (drain (exec discover
                  (evs @ [CallOpen rid url target args opts, ResultAccepted port]) s))
         = calls (exec discover evs s) @ invocations (microtasks (exec discover evs s))
           @ map (\<lambda>c. (c, port)) (handlersFor (manager (exec discover evs s)) rid)"
proof -
  define t where "t = exec discover evs s"
  define u where "u = exec discover [CallOpen rid url target args opts, ResultAccepted port] t"
  have u: "u = t\<lparr>nextObj := Suc (nextObj t),
                 opened := opened t @ [port],
                 acceptReactions := acceptReactions t,
                 microtasks := microtasks t @ [AcceptResultReaction rid port]\<rparr>"
    using filter_fresh[OF fresh[folded t_def]]
    by (simp add: u_def exec_Cons exec_Nil open_eq port[folded t_def, symmetric]
          acceptResultResolves_def)
  have "calls (drain u) = calls t @ invocations (microtasks t)
           @ map (\<lambda>c. (c, port)) (handlersFor (manager t) rid)"
    using queue[folded t_def]
    by (simp add: drain_calls u invocations_append deliveries_append deliveries_callbacks
          handlersFor_def)
  moreover have "exec discover (evs @ [CallOpen rid url target args opts, ResultAccepted port]) s = u"
    by (simp add: u_def t_def exec_append)
  ultimately show ?thesis by (simp add: t_def)
qed

section \<open>The claims\<close>

text \<open>
  C1, at a request id that names a member of \<open>Object.prototype\<close>. On a page just
  constructed, \<open>onResult('constructor', c)\<close> reads the inherited \<open>constructor\<close> function
  from the handler registry, takes it for the array of handlers and throws a
  \<open>TypeError\<close> at \<open>handlers.push\<close>: nothing is registered. In the run where a callback is
  registered under that id, \<open>open\<close> is called for it, the result is accepted, the
  reaction runs and a second callback is registered, both registrations throw, the
  reaction throws at \<open>handlers.forEach\<close> (its promise is rejected), and after the queue is
  drained no callback has been invoked.
\<close>

theorem registrations_lost_for_inherited_name:
  "onResult (\<lambda>w f r. None) ''constructor'' (Callback 1 None)
      (new_page \<lparr>win_self = 7, win_top = 7, win_opener = None, location_hash = []\<rparr>)
     = Inl (TypeError ''handlers.push is not a function'')
   \<and> calls (drain (exec (\<lambda>w f r. None)
        [CallOnResult ''constructor'' (Callback 1 None),
         CallOpen ''constructor'' ''https://example.com/file'' ''_blank'' None None,
         ResultAccepted
           (ActivityWindowPort 0 7 ''constructor'' ''https://example.com/file'' ''_blank''
              None None),
         Microtask,
         CallOnResult ''constructor'' (Callback 2 None)]
        (new_page \<lparr>win_self = 7, win_top = 7, win_opener = None, location_hash = []\<rparr>)))
     = []
   \<and> uncaught (drain (exec (\<lambda>w f r. None)
        [CallOnResult ''constructor'' (Callback 1 None),
         CallOpen ''constructor'' ''https://example.com/file'' ''_blank'' None None,
         ResultAccepted
           (ActivityWindowPort 0 7 ''constructor'' ''https://example.com/file'' ''_blank''
              None None),
         Microtask,
         CallOnResult ''constructor'' (Callback 2 None)]
        (new_page \<lparr>win_self = 7, win_top = 7, win_opener = None, location_hash = []\<rparr>)))
     = [TypeError ''handlers.push is not a function'',
        TypeError ''handlers.push is not a function'']
   \<and> rejections (drain (exec (\<lambda>w f r. None)
        [CallOnResult ''constructor'' (Callback 1 None),
         CallOpen ''constructor'' ''https://example.com/file'' ''_blank'' None None,
         ResultAccepted
           (ActivityWindowPort 0 7 ''constructor'' ''https://example.com/file'' ''_blank''
              None None),
         Microtask,
         CallOnResult ''constructor'' (Callback 2 None)]
        (new_page \<lparr>win_self = 7, win_top = 7, win_opener = None, location_hash = []\<rparr>)))
     = [TypeError ''handlers.forEach is not a function'']"
  by (simp add: run_simps drain_Nil)

text \<open>
  C2, as stated, fails: \<open>consumeResultAll_\<close> assigns the buffer entry unconditionally.
  When \<open>open\<close> is called a second time with a request id whose first result has already
  arrived, and the second port's result arrives too, the buffer holds the second port.
\<close>

theorem buffer_overwritten_counterexample:
  "resultBuffer (manager (exec (\<lambda>w f r. None)
      [CallOpen ''request1'' ''https://example.com/file'' ''_blank'' None None,
       ResultAccepted
         (ActivityWindowPort 0 7 ''request1'' ''https://example.com/file'' ''_blank'' None None),
       Microtask]
      (new_page \<lparr>win_self = 7, win_top = 7, win_opener = None, location_hash = []\<rparr>)))
     ''request1''
   = Some (ActivityWindowPort 0 7 ''request1'' ''https://example.com/file'' ''_blank'' None None)
   \<and> resultBuffer (manager (exec (\<lambda>w f r. None)
      [CallOpen ''request1'' ''https://example.com/file'' ''_blank'' None None,
       ResultAccepted
         (ActivityWindowPort 0 7 ''request1'' ''https://example.com/file'' ''_blank'' None None),
       Microtask,
       CallOpen ''request1'' ''https://example.com/file'' ''_blank'' None None,
       ResultAccepted
         (ActivityWindowPort 1 7 ''request1'' ''https://example.com/file'' ''_blank'' None None),
       Microtask]
      (new_page \<lparr>win_self = 7, win_top = 7, win_opener = None, location_hash = []\<rparr>)))
     ''request1''
   = Some (ActivityWindowPort 1 7 ''request1'' ''https://example.com/file'' ''_blank'' None None)
   \<and> ActivityWindowPort 1 7 ''request1'' ''https://example.com/file'' ''_blank'' None None
     \<noteq> ActivityWindowPort 0 7 ''request1'' ''https://example.com/file'' ''_blank'' None None"
  by (simp add: run_simps)

text \<open>
  C2, amended. On a page the constructor started, once a port is stored in the result
  buffer for a request id, a redirect discovery (\<open>discoverResult_\<close>, for any request id)
  leaves the entry as it is; the entry stays the same port through any events among
  which no further result of an \<open>open\<close> arrives for that request id (\<open>open\<close> may be called
  again for it, and the result of that call may be pending, or accepted and not yet
  delivered); through any events whatever the request id keeps an entry; and a further
  result arriving for the request id (\<open>consumeResultAll_\<close>) replaces the entry by the port
  that arrived.
\<close>

theorem buffer_entry_kept_until_next_result:
  assumes reached: "s = exec discover history (new_page w)"
    and stored: "resultBuffer (manager s) rid = Some p"
    and quiet: "noArrival discover rid evs s"
  shows "resultBuffer (snd (discoverResult discover rid' (manager s))) rid = Some p
         \<and> resultBuffer (manager (exec discover evs s)) rid = Some p
         \<and> resultBuffer (manager (exec discover evs' s)) rid \<noteq> None
         \<and> (\<exists>t. consumeResultAll rid p' s = Inr t \<and> resultBuffer (manager t) rid = Some p')"
proof -
  have "plainRegistries (manager s)"
    unfolding reached by (rule plain_exec[OF plain_new_page])
  with stored have "rid \<notin> set objectPrototypeMembers"
    by (auto simp add: plainRegistries_def)
  then have "registrable (manager s) rid"
    by (simp add: registrable_iff)
  then have 4: "\<exists>t. consumeResultAll rid p' s = Inr t \<and> resultBuffer (manager t) rid = Some p'"
    by (simp add: consumeResultAll_eq)
  show ?thesis
    using discoverResult_keeps[OF stored] buffer_exec_kept[OF stored quiet]
      buffer_exec_dom[of s rid] stored 4
    by simp
qed

theorem buffer_entry_kept_until_next_result_witness:
  "resultBuffer (manager (exec (\<lambda>w f r. None)
      ([CallOpen ''request1'' ''https://example.com/file'' ''_blank'' None None,
        ResultAccepted
          (ActivityWindowPort 0 7 ''request1'' ''https://example.com/file'' ''_blank'' None None),
        Microtask]
       @ [CallOpen ''request1'' ''https://example.com/again'' ''_top'' None None,
          CallOnResult ''request1'' (Callback 1 None), Microtask,
          CallOpen ''request2'' ''https://example.com/other'' ''_blank'' None None,
          ResultAccepted
            (ActivityWindowPort 2 7 ''request2'' ''https://example.com/other'' ''_blank''
               None None),
          Microtask, AssignHash ''#x'',
          ResultAccepted
            (ActivityWindowPort 1 7 ''request1'' ''https://example.com/again'' ''_top''
               None None)])
      (new_page \<lparr>win_self = 7, win_top = 7, win_opener = None, location_hash = []\<rparr>)))
     ''request1''
   = Some (ActivityWindowPort 0 7 ''request1'' ''https://example.com/file'' ''_blank'' None None)"
  using buffer_entry_kept_until_next_result
    [where s = "exec (\<lambda>w f r. None)
      [CallOpen ''request1'' ''https://example.com/file'' ''_blank'' None None,
       ResultAccepted
         (ActivityWindowPort 0 7 ''request1'' ''https://example.com/file'' ''_blank'' None None),
       Microtask]
      (new_page \<lparr>win_self = 7, win_top = 7, win_opener = None, location_hash = []\<rparr>)"
       and history = "[CallOpen ''request1'' ''https://example.com/file'' ''_blank'' None None,
       ResultAccepted
         (ActivityWindowPort 0 7 ''request1'' ''https://example.com/file'' ''_blank'' None None),
       Microtask]"
       and w = "\<lparr>win_self = 7, win_top = 7, win_opener = None, location_hash = []\<rparr>"
       and rid = "''request1''" and discover = "\<lambda>w f r. None"
       and p = "ActivityWindowPort 0 7 ''request1'' ''https://example.com/file'' ''_blank''
                  None None"
       and evs = "[CallOpen ''request1'' ''https://example.com/again'' ''_top'' None None,
          CallOnResult ''request1'' (Callback 1 None), Microtask,
          CallOpen ''request2'' ''https://example.com/other'' ''_blank'' None None,
          ResultAccepted
            (ActivityWindowPort 2 7 ''request2'' ''https://example.com/other'' ''_blank''
               None None),
          Microtask, AssignHash ''#x'',
          ResultAccepted
            (ActivityWindowPort 1 7 ''request1'' ''https://example.com/again'' ''_top''
               None None)]"]
  by (simp add: run_simps exec_append[unfolded exec_def])


text \<open>
  C4. A callback that throws does not stop the delivery. When a result is consumed for a
  request id (\<open>consumeResultAll_\<close>) while only callback jobs wait in the queue, and one of
  the callbacks registered for that request id throws, then \<open>consumeResultAll_\<close> returns,
  and after the queue has been drained every callback registered for the request id has
  been invoked with the port, in registration order, after the invocations that were
  already queued; the exception ends up among the rejections of the page; and the
  result buffer holds the port for that request id, its other entries being as before.
\<close>

theorem callback_failure_isolated:
  assumes queue: "list_all isCallbackJob (microtasks s)"
    and registered: "c \<in> set (handlersFor (manager s) rid)"
    and throws: "cb_throws c = Some e"
  shows "\<exists>t. consumeResultAll rid p s = Inr t
           \<and> calls (drain t)
               = calls s @ invocations (microtasks s)
                 @ map (\<lambda>h. (h, p)) (handlersFor (manager s) rid)
           \<and> e \<in> set (rejections (drain t))
           \<and> resultBuffer (manager (drain t)) = (resultBuffer (manager s))(rid \<mapsto> p)"
proof -
  define t where
    "t = s\<lparr>microtasks := microtasks s @ map (CallbackReaction p) (handlersFor (manager s) rid),
           manager := (manager s)\<lparr>resultBuffer := (resultBuffer (manager s))(rid \<mapsto> p)\<rparr>\<rparr>"
  have "requestHandlers (manager s) rid \<noteq> None"
    using registered by (cases "requestHandlers (manager s) rid") (simp_all add: handlersFor_def)
  then have "registrable (manager s) rid"
    by (simp add: registrable_iff)
  then have 0: "consumeResultAll rid p s = Inr t"
    by (simp add: consumeResultAll_eq t_def)
  have q: "microtasks t = microtasks s @ map (CallbackReaction p) (handlersFor (manager s) rid)"
    and m: "manager t = (manager s)\<lparr>resultBuffer := (resultBuffer (manager s))(rid \<mapsto> p)\<rparr>"
    and c: "calls t = calls s" and r: "rejections t = rejections s"
    by (simp_all add: t_def)
  have cbs: "list_all isCallbackJob (microtasks t)"
    using queue by (simp add: q callbacks_map)
  have 1: "calls (drain t) = calls s @ invocations (microtasks s)
             @ map (\<lambda>h. (h, p)) (handlersFor (manager s) rid)"
    by (simp add: drain_callbacks(1)[OF cbs] q c invocations_append invocations_map)
  have "(c, p) \<in> set (invocations (microtasks t))"
    using registered by (simp add: q invocations_append invocations_map)
  then have 2: "e \<in> set (rejections (drain t))"
    using throws
    by (simp add: drain_callbacks(2)[OF cbs] failures_member)
  have 3: "resultBuffer (manager (drain t)) = (resultBuffer (manager s))(rid \<mapsto> p)"
    by (simp add: drain_callbacks(3)[OF cbs] m)
  from 0 1 2 3 show ?thesis by blast
qed

theorem callback_failure_isolated_witness:
  "\<exists>t. consumeResultAll ''request1''
            (ActivityWindowPort 0 7 ''request1'' ''https://example.com/file'' ''_blank'' None None)
            (exec (\<lambda>w f r. None)
               [CallOnResult ''request1'' (Callback 1 (Some (Error ''intentional''))),
                CallOnResult ''request1'' (Callback 2 None)]
               (new_page \<lparr>win_self = 7, win_top = 7, win_opener = None, location_hash = []\<rparr>))
          = Inr t
      \<and> calls (drain t)
        = [(Callback 1 (Some (Error ''intentional'')),
            ActivityWindowPort 0 7 ''request1'' ''https://example.com/file'' ''_blank'' None None),
           (Callback 2 None,
            ActivityWindowPort 0 7 ''request1'' ''https://example.com/file'' ''_blank'' None None)]
      \<and> Error ''intentional'' \<in> set (rejections (drain t))
      \<and> resultBuffer (manager (drain t)) ''request1''
        = Some (ActivityWindowPort 0 7 ''request1'' ''https://example.com/file'' ''_blank''
                  None None)"
  using callback_failure_isolated
    [where s = "exec (\<lambda>w f r. None)
               [CallOnResult ''request1'' (Callback 1 (Some (Error ''intentional''))),
                CallOnResult ''request1'' (Callback 2 None)]
               (new_page \<lparr>win_self = 7, win_top = 7, win_opener = None, location_hash = []\<rparr>)"
       and rid = "''request1''" and c = "Callback 1 (Some (Error ''intentional''))"
       and e = "Error ''intentional''"
       and p = "ActivityWindowPort 0 7 ''request1'' ''https://example.com/file'' ''_blank''
                  None None"]
  by (simp add: run_simps)

text \<open>
  C5. \<open>connectHost\<close> chooses the host from the window alone. If \<open>win.top\<close> is not the
  window itself it builds an iframe host; otherwise, if the window has an opener that is
  not closed, a popup host; otherwise (no opener, or a closed one) a redirect host. It
  returns what \<open>connect(request)\<close> of that host returns. Two managers on the same window
  choose alike.
\<close>

theorem connectHost_selects_host:
  "(win_top (win a) \<noteq> win_self (win a) \<longrightarrow>
      connectHost connect request a = connect (ActivityIframeHost (win a)) request)
   \<and> (win_top (win a) = win_self (win a) \<and> win_opener (win a) = Some opn \<and> \<not> closed opn \<longrightarrow>
      connectHost connect request a = connect (ActivityWindowPopupHost (win a)) request)
   \<and> (win_top (win a) = win_self (win a)
        \<and> (win_opener (win a) = None \<or> (\<exists>opn'. win_opener (win a) = Some opn' \<and> closed opn')) \<longrightarrow>
      connectHost connect request a = connect (ActivityWindowRedirectHost (win a)) request)
   \<and> (win a = win b \<longrightarrow> connectHost connect request a = connectHost connect request b)"
  by (auto simp add: connectHost_def)

theorem connectHost_selects_host_witness:
  "connectHost (\<lambda>h q. (h, q)) (Some ''request'')
      (new_Activities \<lparr>win_self = 1, win_top = 0, win_opener = None, location_hash = []\<rparr>)
     = (ActivityIframeHost \<lparr>win_self = 1, win_top = 0, win_opener = None, location_hash = []\<rparr>,
        Some ''request'')
   \<and> connectHost (\<lambda>h q. (h, q)) (Some ''request'')
      (new_Activities \<lparr>win_self = 1, win_top = 1, win_opener = Some \<lparr>closed = False\<rparr>,
                       location_hash = []\<rparr>)
     = (ActivityWindowPopupHost \<lparr>win_self = 1, win_top = 1,
          win_opener = Some \<lparr>closed = False\<rparr>, location_hash = []\<rparr>,
        Some ''request'')
   \<and> connectHost (\<lambda>h q. (h, q)) (Some ''request'')
      (new_Activities \<lparr>win_self = 1, win_top = 1, win_opener = Some \<lparr>closed = True\<rparr>,
                       location_hash = []\<rparr>)
     = (ActivityWindowRedirectHost \<lparr>win_self = 1, win_top = 1,
          win_opener = Some \<lparr>closed = True\<rparr>, location_hash = []\<rparr>,
        Some ''request'')
   \<and> connectHost (\<lambda>h q. (h, q)) (Some ''request'')
      (new_Activities \<lparr>win_self = 1, win_top = 1, win_opener = None, location_hash = []\<rparr>)
     = (ActivityWindowRedirectHost \<lparr>win_self = 1, win_top = 1, win_opener = None,
          location_hash = []\<rparr>,
        Some ''request'')"
  using
    connectHost_selects_host
      [where a = "new_Activities \<lparr>win_self = 1, win_top = 0, win_opener = None,
                                  location_hash = []\<rparr>"
         and connect = "\<lambda>h q. (h, q)" and request = "Some ''request''"]
    connectHost_selects_host
      [where a = "new_Activities \<lparr>win_self = 1, win_top = 1,
                                  win_opener = Some \<lparr>closed = False\<rparr>, location_hash = []\<rparr>"
         and opn = "\<lparr>closed = False\<rparr>"
         and connect = "\<lambda>h q. (h, q)" and request = "Some ''request''"]
    connectHost_selects_host
      [where a = "new_Activities \<lparr>win_self = 1, win_top = 1,
                                  win_opener = Some \<lparr>closed = True\<rparr>, location_hash = []\<rparr>"
         and connect = "\<lambda>h q. (h, q)" and request = "Some ''request''"]
    connectHost_selects_host
      [where a = "new_Activities \<lparr>win_self = 1, win_top = 1, win_opener = None,
                                  location_hash = []\<rparr>"
         and connect = "\<lambda>h q. (h, q)" and request = "Some ''request''"]
  by (simp add: new_Activities_def)

text \<open>
  C6, at a request id that names a member of \<open>Object.prototype\<close>. The fragment captured
  at construction holds a redirect result for \<open>constructor\<close>, so a result is available
  when \<open>onResult('constructor', c)\<close> is called. The call throws a \<open>TypeError\<close> at
  \<open>handlers.push\<close> before it looks for the result: no job is queued, and after the queue
  is drained the callback has not been invoked.
\<close>

theorem available_result_not_delivered_for_inherited_name:
  "onResult
      (\<lambda>w f r. if r = ''constructor''
         then Some (ActivityWindowRedirectPort 7
                \<lparr>res_requestId = ''constructor'', res_code = ''ok'', res_data = ''ok'',
                  res_origin = ''https://example.com''\<rparr>)
         else None)
      ''constructor'' (Callback 1 None)
      (new_page \<lparr>win_self = 7, win_top = 7, win_opener = None,
                  location_hash = ''#__WA_RES__=x''\<rparr>)
     = Inl (TypeError ''handlers.push is not a function'')
   \<and> microtasks (exec
      (\<lambda>w f r. if r = ''constructor''
         then Some (ActivityWindowRedirectPort 7
                \<lparr>res_requestId = ''constructor'', res_code = ''ok'', res_data = ''ok'',
                  res_origin = ''https://example.com''\<rparr>)
         else None)
      [CallOnResult ''constructor'' (Callback 1 None)]
      (new_page \<lparr>win_self = 7, win_top = 7, win_opener = None,
                  location_hash = ''#__WA_RES__=x''\<rparr>))
     = []
   \<and> calls (drain (exec
      (\<lambda>w f r. if r = ''constructor''
         then Some (ActivityWindowRedirectPort 7
                \<lparr>res_requestId = ''constructor'', res_code = ''ok'', res_data = ''ok'',
                  res_origin = ''https://example.com''\<rparr>)
         else None)
      [CallOnResult ''constructor'' (Callback 1 None)]
      (new_page \<lparr>win_self = 7, win_top = 7, win_opener = None,
                  location_hash = ''#__WA_RES__=x''\<rparr>)))
     = []"
  by (simp add: run_simps drain_Nil)

text \<open>
  C7, at a request id that names a member of \<open>Object.prototype\<close>. \<open>open\<close> is called for
  \<open>toString\<close> with no callback registered, and the result is accepted. The reaction reads
  the inherited \<open>toString\<close> function from the handler registry and throws a \<open>TypeError\<close>
  at \<open>handlers.forEach\<close>, before the assignment to the buffer: the promise of the
  reaction is rejected and the buffer holds nothing under \<open>toString\<close>.
\<close>

theorem result_not_buffered_for_inherited_name:
  "resultBuffer (manager (exec (\<lambda>w f r. None)
      [CallOpen ''toString'' ''https://example.com/file'' ''_blank'' None None,
       ResultAccepted
         (ActivityWindowPort 0 7 ''toString'' ''https://example.com/file'' ''_blank'' None None),
       Microtask]
      (new_page \<lparr>win_self = 7, win_top = 7, win_opener = None, location_hash = []\<rparr>)))
     ''toString''
   = None
   \<and> rejections (exec (\<lambda>w f r. None)
      [CallOpen ''toString'' ''https://example.com/file'' ''_blank'' None None,
       ResultAccepted
         (ActivityWindowPort 0 7 ''toString'' ''https://example.com/file'' ''_blank'' None None),
       Microtask]
      (new_page \<lparr>win_self = 7, win_top = 7, win_opener = None, location_hash = []\<rparr>))
   = [TypeError ''handlers.forEach is not a function'']
   \<and> consumeResultAll ''toString''
      (ActivityWindowPort 0 7 ''toString'' ''https://example.com/file'' ''_blank'' None None)
      (new_page \<lparr>win_self = 7, win_top = 7, win_opener = None, location_hash = []\<rparr>)
   = Inl (TypeError ''handlers.forEach is not a function'')"
  by (simp add: run_simps)

text \<open>
  C8. \<open>openIframe\<close> builds an iframe port for the given frame, url and arguments and
  calls its \<open>connect()\<close> once, within the call. The promise it returns is fulfilled with
  that port when the handshake succeeds, is rejected with the handshake's own error when
  it fails, and stays pending when the handshake never settles. The manager is left as
  it was.
\<close>

theorem openIframe_connects_once:
  assumes "port = ActivityIframePort (nextObj s) iframe url args"
  shows "(connect port = Fulfilled v \<longrightarrow>
            fst (openIframe connect iframe url args s) = Fulfilled port)
         \<and> (connect port = Rejected e \<longrightarrow>
            fst (openIframe connect iframe url args s) = Rejected e)
         \<and> (connect port = Pending \<longrightarrow>
            fst (openIframe connect iframe url args s) = Pending)
         \<and> connects (snd (openIframe connect iframe url args s)) = connects s @ [port]
         \<and> manager (snd (openIframe connect iframe url args s)) = manager s"
  using assms by (simp add: openIframe_def Let_def)

theorem openIframe_connects_once_witness:
  "fst (openIframe (\<lambda>p. Fulfilled ()) 3 ''https://example.com/iframe'' (Some ''{a: 1}'')
          (new_page \<lparr>win_self = 7, win_top = 7, win_opener = None, location_hash = []\<rparr>))
     = Fulfilled (ActivityIframePort 0 3 ''https://example.com/iframe'' (Some ''{a: 1}''))
   \<and> fst (openIframe (\<lambda>p. Rejected (Error ''intentional'') :: unit promise) 3
          ''https://example.com/iframe'' (Some ''{a: 1}'')
          (new_page \<lparr>win_self = 7, win_top = 7, win_opener = None, location_hash = []\<rparr>))
     = Rejected (Error ''intentional'')
   \<and> connects (snd (openIframe (\<lambda>p. Rejected (Error ''intentional'') :: unit promise) 3
          ''https://example.com/iframe'' (Some ''{a: 1}'')
          (new_page \<lparr>win_self = 7, win_top = 7, win_opener = None, location_hash = []\<rparr>)))
     = [ActivityIframePort 0 3 ''https://example.com/iframe'' (Some ''{a: 1}'')]"
  using
    openIframe_connects_once
      [where s = "new_page \<lparr>win_self = 7, win_top = 7, win_opener = None, location_hash = []\<rparr>"
         and iframe = 3 and url = "''https://example.com/iframe''" and args = "Some ''{a: 1}''"
         and port = "ActivityIframePort 0 3 ''https://example.com/iframe'' (Some ''{a: 1}'')"
         and connect = "\<lambda>p. Fulfilled ()" and v = "()"]
    openIframe_connects_once
      [where s = "new_page \<lparr>win_self = 7, win_top = 7, win_opener = None, location_hash = []\<rparr>"
         and iframe = 3 and url = "''https://example.com/iframe''" and args = "Some ''{a: 1}''"
         and port = "ActivityIframePort 0 3 ''https://example.com/iframe'' (Some ''{a: 1}'')"
         and connect = "\<lambda>p. Rejected (Error ''intentional'') :: unit promise"
         and e = "Error ''intentional''"]
  by (simp add: new_page_def)

text \<open>
  C9. Discovery reads the fragment captured at construction, never the current hash. Two
  runs of the same events from the same page that differ only in assignments to
  \<open>win.location.hash\<close> find the same port (or none) for every request id, and agree on the
  result buffer, on the queued jobs and on the invocations made; the captured fragment
  stays what it was.
\<close>

theorem discovery_independent_of_later_hash:
  assumes "withoutHashAssignments evs = withoutHashAssignments evs'"
  shows "fst (discoverResult (discoverRedirectPort decode) rid
                (manager (exec (discoverRedirectPort decode) evs s)))
         = fst (discoverResult (discoverRedirectPort decode) rid
                (manager (exec (discoverRedirectPort decode) evs' s)))
         \<and> resultBuffer (manager (exec (discoverRedirectPort decode) evs s))
           = resultBuffer (manager (exec (discoverRedirectPort decode) evs' s))
         \<and> microtasks (exec (discoverRedirectPort decode) evs s)
           = microtasks (exec (discoverRedirectPort decode) evs' s)
         \<and> calls (exec (discoverRedirectPort decode) evs s)
           = calls (exec (discoverRedirectPort decode) evs' s)
         \<and> fragment (manager (exec (discoverRedirectPort decode) evs s)) = fragment (manager s)"
proof -
  let ?D = "discoverRedirectPort decode"
  have eq: "forgetHash (exec ?D evs s) = forgetHash (exec ?D evs' s)"
    using assms by (simp add: exec_forgetHash[of ?D, OF discoverRedirectPort_hash])
  have found: "fst (discoverResult ?D rid (manager t))
                 = fst (discoverResult ?D rid (manager (forgetHash t)))" for t
    by (simp add: forgetHash_def discoverResult_hash[of ?D, OF discoverRedirectPort_hash])
  have 1: "fst (discoverResult ?D rid (manager (exec ?D evs s)))
           = fst (discoverResult ?D rid (manager (exec ?D evs' s)))"
    using found[of "exec ?D evs s"] found[of "exec ?D evs' s"] eq by simp
  have 2: "resultBuffer (manager (exec ?D evs s)) = resultBuffer (manager (exec ?D evs' s))"
    using forgetHash_observed(3)[of "exec ?D evs s"] forgetHash_observed(3)[of "exec ?D evs' s"] eq
    by simp
  have 3: "microtasks (exec ?D evs s) = microtasks (exec ?D evs' s)"
    using forgetHash_observed(2)[of "exec ?D evs s"] forgetHash_observed(2)[of "exec ?D evs' s"] eq
    by simp
  have 4: "calls (exec ?D evs s) = calls (exec ?D evs' s)"
    using forgetHash_observed(1)[of "exec ?D evs s"] forgetHash_observed(1)[of "exec ?D evs' s"] eq
    by simp
  from 1 2 3 4 fragment_exec[of ?D evs s] show ?thesis by blast
qed

theorem discovery_independent_of_later_hash_witness:
  "fst (discoverResult
          (discoverRedirectPort (\<lambda>f. if f = ''#__WA_RES__=one''
             then Some \<lparr>res_requestId = ''request1'', res_code = ''ok'', res_data = ''ok'',
                         res_origin = ''https://example.com''\<rparr>
             else if f = ''#__WA_RES__=two''
             then Some \<lparr>res_requestId = ''request2'', res_code = ''ok'', res_data = ''ok'',
                         res_origin = ''https://example.com''\<rparr>
             else None))
          ''request2''
          (manager (exec
            (discoverRedirectPort (\<lambda>f. if f = ''#__WA_RES__=one''
               then Some \<lparr>res_requestId = ''request1'', res_code = ''ok'', res_data = ''ok'',
                           res_origin = ''https://example.com''\<rparr>
               else if f = ''#__WA_RES__=two''
               then Some \<lparr>res_requestId = ''request2'', res_code = ''ok'', res_data = ''ok'',
                           res_origin = ''https://example.com''\<rparr>
               else None))
            [AssignHash ''#__WA_RES__=two'', CallOnResult ''request1'' (Callback 1 None)]
            (new_page \<lparr>win_self = 7, win_top = 7, win_opener = None,
                        location_hash = ''#__WA_RES__=one''\<rparr>))))
   = None
   \<and> microtasks (exec
         (discoverRedirectPort (\<lambda>f. if f = ''#__WA_RES__=one''
            then Some \<lparr>res_requestId = ''request1'', res_code = ''ok'', res_data = ''ok'',
                        res_origin = ''https://example.com''\<rparr>
            else if f = ''#__WA_RES__=two''
            then Some \<lparr>res_requestId = ''request2'', res_code = ''ok'', res_data = ''ok'',
                        res_origin = ''https://example.com''\<rparr>
            else None))
         [AssignHash ''#__WA_RES__=two'', CallOnResult ''request1'' (Callback 1 None)]
         (new_page \<lparr>win_self = 7, win_top = 7, win_opener = None,
                     location_hash = ''#__WA_RES__=one''\<rparr>))
     = [CallbackReaction
          (ActivityWindowRedirectPort 7
             \<lparr>res_requestId = ''request1'', res_code = ''ok'', res_data = ''ok'',
               res_origin = ''https://example.com''\<rparr>)
          (Callback 1 None)]"
  using discovery_independent_of_later_hash
    [where evs = "[AssignHash ''#__WA_RES__=two'', CallOnResult ''request1'' (Callback 1 None)]"
       and evs' = "[CallOnResult ''request1'' (Callback 1 None)]"
       and rid = "''request2''"
       and decode = "\<lambda>f. if f = ''#__WA_RES__=one''
            then Some \<lparr>res_requestId = ''request1'', res_code = ''ok'', res_data = ''ok'',
                        res_origin = ''https://example.com''\<rparr>
            else if f = ''#__WA_RES__=two''
            then Some \<lparr>res_requestId = ''request2'', res_code = ''ok'', res_data = ''ok'',
                        res_origin = ''https://example.com''\<rparr>
            else None"
       and s = "new_page \<lparr>win_self = 7, win_top = 7, win_opener = None,
                     location_hash = ''#__WA_RES__=one''\<rparr>"]
  by (simp add: withoutHashAssignments_def run_simps discoverRedirectPort_def)


end
